theory Spec2Isabelle
  imports Main
begin

section \<open>The icon organizer: data model\<close>

text \<open>
  A shallow embedding of \<^verbatim>\<open>src/icons/icon_organizer.py\<close>. Paths and hex strings are
  HOL strings, file contents are byte strings. What the script takes from outside (the
  files it reads, \<^verbatim>\<open>hashlib.md5\<close>, \<^verbatim>\<open>PIL.Image.open\<close> with
  \<^verbatim>\<open>imagehash.phash\<close>) is a parameter of the model, the record \<open>world\<close>; the
  list of image paths that the directory walk discovers is the input \<open>all_images\<close>.
  Python dictionaries keep insertion order, and the clustering depends on it, so the two
  \<^verbatim>\<open>defaultdict(list)\<close> are association lists in insertion order. The output
  directory is a store from paths to file contents, which the run receives and returns;
  creating directories is not modelled, and the store is apart from the files that the
  run reads. A raised exception is a value of \<open>py_error\<close>.
\<close>

type_synonym path = string
type_synonym bytes = "char list"
type_synonym groups = "(string \<times> path list) list"
type_synonym store = "path \<rightharpoonup> bytes"

datatype py_error = IndexError | OSError

record world =
  read_file :: "path \<Rightarrow> bytes option"
  md5_hexdigest :: "bytes \<Rightarrow> string"
  phash_str :: "bytes \<Rightarrow> string option"

text \<open>
  \<open>read_file w p\<close> is the content of the file at \<open>p\<close>, \<open>None\<close> when opening or reading
  it raises. \<open>md5_hexdigest w\<close> is \<^verbatim>\<open>hashlib.md5(...).hexdigest()\<close> of the whole
  content (feeding the 4096-byte chunks with \<^verbatim>\<open>update\<close> digests their concatenation).
  \<open>phash_str w b\<close> is \<^verbatim>\<open>str(imagehash.phash(img))\<close> for the image decoded from \<open>b\<close>,
  \<open>None\<close> when decoding or hashing raises.
\<close>

section \<open>The two hash functions (lines 9--30)\<close>

definition calculate_image_hash :: "world \<Rightarrow> path \<Rightarrow> string option" where
  "calculate_image_hash w image_path =
     (case read_file w image_path of
        None \<Rightarrow> None
      | Some img \<Rightarrow> phash_str w img)"

definition calculate_file_md5 :: "world \<Rightarrow> path \<Rightarrow> string option" where
  "calculate_file_md5 w file_path =
     (case read_file w file_path of
        None \<Rightarrow> None
      | Some content \<Rightarrow> Some (md5_hexdigest w content))"

text \<open>Python truthiness of an optional string: \<^verbatim>\<open>None\<close> and \<^verbatim>\<open>''\<close> are false.\<close>

definition truthy :: "string option \<Rightarrow> bool" where
  "truthy h = (case h of None \<Rightarrow> False | Some s \<Rightarrow> s \<noteq> [])"

section \<open>Grouping by hash (lines 63--67 and 80--84)\<close>

text \<open>\<^verbatim>\<open>d[k].append(v)\<close> on a \<^verbatim>\<open>defaultdict(list)\<close>: a new key goes to the end.\<close>

fun dict_append :: "string \<Rightarrow> path \<Rightarrow> groups \<Rightarrow> groups" where
  "dict_append k v [] = [(k, [v])]"
| "dict_append k v ((k', vs) # rest) =
     (if k' = k then (k', vs @ [v]) # rest else (k', vs) # dict_append k v rest)"

text \<open>
  Both grouping loops have the same body: hash the path and, if the hash is truthy
  (neither \<^verbatim>\<open>None\<close> nor empty), append the path to the hash's list.
\<close>

fun group_loop :: "(path \<Rightarrow> string option) \<Rightarrow> path list \<Rightarrow> groups \<Rightarrow> groups" where
  "group_loop hash_of [] d = d"
| "group_loop hash_of (image_path # rest) d =
     (case hash_of image_path of
        None \<Rightarrow> group_loop hash_of rest d
      | Some h \<Rightarrow>
          if h \<noteq> [] then group_loop hash_of rest (dict_append h image_path d)
          else group_loop hash_of rest d)"

definition md5_groups :: "world \<Rightarrow> path list \<Rightarrow> groups" where
  "md5_groups w all_images = group_loop (calculate_file_md5 w) all_images []"

definition phash_groups :: "world \<Rightarrow> path list \<Rightarrow> groups" where
  "phash_groups w unique_images = group_loop (calculate_image_hash w) unique_images []"

section \<open>Exact duplicates (lines 70--75)\<close>

text \<open>
  The loop takes \<^verbatim>\<open>file_paths[0]\<close>, which raises \<^verbatim>\<open>IndexError\<close> on an empty
  list, before it adds \<^verbatim>\<open>len(file_paths) - 1\<close> to the count.
\<close>

fun dedup_loop :: "groups \<Rightarrow> path list \<times> int \<Rightarrow> py_error + path list \<times> int" where
  "dedup_loop [] acc = Inr acc"
| "dedup_loop ((md5_hash, file_paths) # rest) (unique_images, duplicate_count) =
     (case file_paths of
        [] \<Rightarrow> Inl IndexError
      | p # _ \<Rightarrow> dedup_loop rest
                 (unique_images @ [p], duplicate_count + int (length file_paths) - 1))"

section \<open>Similarity clustering (lines 87--107)\<close>

text \<open>\<^verbatim>\<open>sum(c1 != c2 for c1, c2 in zip(phash, other_phash))\<close>; \<open>zip\<close> stops at the shorter string.\<close>

definition hamming_distance :: "string \<Rightarrow> string \<Rightarrow> nat" where
  "hamming_distance phash other_phash =
     length (filter (\<lambda>(c1, c2). c1 \<noteq> c2) (zip phash other_phash))"

text \<open>The inner loop (lines 98--104) over all groups, for the seed \<open>phash\<close>.\<close>

fun merge_scan :: "int \<Rightarrow> string \<Rightarrow> groups \<Rightarrow> path list \<times> string set \<Rightarrow> path list \<times> string set" where
  "merge_scan threshold phash [] st = st"
| "merge_scan threshold phash ((other_phash, other_file_paths) # rest) (similar_group, processed_hashes) =
     (if other_phash \<noteq> phash \<and> other_phash \<notin> processed_hashes then
        (if int (hamming_distance phash other_phash) \<le> threshold
         then merge_scan threshold phash rest
                (similar_group @ other_file_paths, insert other_phash processed_hashes)
         else merge_scan threshold phash rest (similar_group, processed_hashes))
      else merge_scan threshold phash rest (similar_group, processed_hashes))"

text \<open>
  The outer loop (lines 90--107). \<open>all_groups\<close> is the whole dictionary, which the inner
  loop scans; \<open>todo\<close> is what the outer loop still has to visit.
\<close>

fun cluster_loop :: "int \<Rightarrow> groups \<Rightarrow> groups \<Rightarrow> path list list \<times> string set \<Rightarrow> path list list \<times> string set" where
  "cluster_loop threshold all_groups [] st = st"
| "cluster_loop threshold all_groups ((phash, file_paths) # todo) (similar_groups, processed_hashes) =
     (if phash \<in> processed_hashes
      then cluster_loop threshold all_groups todo (similar_groups, processed_hashes)
      else
        (case merge_scan threshold phash all_groups (file_paths, insert phash processed_hashes) of
           (similar_group, processed_hashes') \<Rightarrow>
             cluster_loop threshold all_groups todo
               (if length similar_group > 1 then similar_groups @ [similar_group] else similar_groups,
                processed_hashes')))"

definition cluster_pass :: "int \<Rightarrow> groups \<Rightarrow> path list list \<times> string set" where
  "cluster_pass threshold gs = cluster_loop threshold gs gs ([], {})"

section \<open>Paths and the output tree (library functions used by lines 109--150)\<close>

text \<open>
  The POSIX versions of \<^verbatim>\<open>os.path.basename\<close>, \<^verbatim>\<open>os.path.splitext\<close> and
  \<^verbatim>\<open>os.path.join\<close>, and \<^verbatim>\<open>str\<close> of a natural number, as the f-strings use it.
  \<open>rfind c s\<close> is \<^verbatim>\<open>s.rfind(c)\<close>: the last index of \<open>c\<close>, or \<open>-1\<close>.
\<close>

fun rfind :: "char \<Rightarrow> string \<Rightarrow> int" where
  "rfind c [] = -1"
| "rfind c (x # xs) =
     (let r = rfind c xs in if r \<ge> 0 then r + 1 else if x = c then 0 else -1)"

definition basename :: "path \<Rightarrow> string" where
  "basename p = drop (nat (rfind CHR ''/'' p + 1)) p"

text \<open>
  \<^verbatim>\<open>splitext\<close> splits at the last dot, if that dot comes after the last separator and
  some character between the separator and the dot is not a dot (leading dots of the
  file name do not start an extension).
\<close>

definition splitext :: "path \<Rightarrow> string \<times> string" where
  "splitext p =
     (let sepIndex = rfind CHR ''/'' p; dotIndex = rfind CHR ''.'' p in
      if dotIndex > sepIndex \<and>
         list_ex (\<lambda>ch. ch \<noteq> CHR ''.'')
           (take (nat (dotIndex - (sepIndex + 1))) (drop (nat (sepIndex + 1)) p))
      then (take (nat dotIndex) p, drop (nat dotIndex) p)
      else (p, []))"

definition path_join :: "path \<Rightarrow> string \<Rightarrow> path" where
  "path_join a b =
     (if b \<noteq> [] \<and> hd b = CHR ''/'' then b
      else if a = [] \<or> last a = CHR ''/'' then a @ b
      else a @ ''/'' @ b)"

function str_nat :: "nat \<Rightarrow> string" where
  "str_nat n =
     (if n < 10 then [''0123456789'' ! n]
      else str_nat (n div 10) @ [''0123456789'' ! (n mod 10)])"
  by pat_completeness auto
termination
  by (relation "measure id") auto

declare str_nat.simps [simp del]

text \<open>
  The output tree is a store from paths to contents, apart from the files the run
  reads. \<^verbatim>\<open>shutil.copy2\<close> raises when the source cannot be read; otherwise it writes
  the source's content at the destination, over whatever was there.
\<close>

definition path_exists :: "store \<Rightarrow> path \<Rightarrow> bool" where
  "path_exists fs p = (fs p \<noteq> None)"

definition copy2 :: "world \<Rightarrow> path \<Rightarrow> path \<Rightarrow> store \<Rightarrow> py_error + store" where
  "copy2 w src_path dst_path fs =
     (case read_file w src_path of
        None \<Rightarrow> Inl OSError
      | Some content \<Rightarrow> Inr (fs(dst_path \<mapsto> content)))"

section \<open>Copying the unique icons (lines 120--133)\<close>

fun copy_unique_loop ::
  "world \<Rightarrow> path \<Rightarrow> string set \<Rightarrow> groups \<Rightarrow> store \<times> nat \<Rightarrow> py_error + store \<times> nat" where
  "copy_unique_loop w unique_dir processed_hashes [] st = Inr st"
| "copy_unique_loop w unique_dir processed_hashes ((phash, file_paths) # rest) (fs, unique_count) =
     (if length file_paths = 1 \<and> phash \<notin> processed_hashes then
        (case file_paths of
           [] \<Rightarrow> Inl IndexError
         | src_path # _ \<Rightarrow>
             (let filename = basename src_path;
                  dst_path = path_join unique_dir filename;
                  dst_path' =
                    (if path_exists fs dst_path
                     then (case splitext filename of
                             (base, ext) \<Rightarrow>
                               path_join unique_dir (base @ ''_'' @ str_nat unique_count @ ext))
                     else dst_path)
              in case copy2 w src_path dst_path' fs of
                   Inl e \<Rightarrow> Inl e
                 | Inr fs' \<Rightarrow>
                     copy_unique_loop w unique_dir processed_hashes rest (fs', unique_count + 1)))
      else copy_unique_loop w unique_dir processed_hashes rest (fs, unique_count))"

section \<open>Copying the similar groups (lines 136--150)\<close>

text \<open>The inner loop over \<^verbatim>\<open>enumerate(group)\<close>, \<open>j\<close> being the running index.\<close>

fun copy_group_loop :: "world \<Rightarrow> path \<Rightarrow> nat \<Rightarrow> path list \<Rightarrow> store \<Rightarrow> py_error + store" where
  "copy_group_loop w group_dir j [] fs = Inr fs"
| "copy_group_loop w group_dir j (file_path # rest) fs =
     (let filename = basename file_path;
          dst_path = path_join group_dir filename;
          dst_path' =
            (if path_exists fs dst_path
             then (case splitext filename of
                     (base, ext) \<Rightarrow> path_join group_dir (base @ ''_'' @ str_nat j @ ext))
             else dst_path)
      in case copy2 w file_path dst_path' fs of
           Inl e \<Rightarrow> Inl e
         | Inr fs' \<Rightarrow> copy_group_loop w group_dir (j + 1) rest fs')"

text \<open>The outer loop over \<^verbatim>\<open>enumerate(similar_groups)\<close>, \<open>i\<close> being the running index.\<close>

fun copy_groups_loop :: "world \<Rightarrow> path \<Rightarrow> nat \<Rightarrow> path list list \<Rightarrow> store \<Rightarrow> py_error + store" where
  "copy_groups_loop w similar_dir i [] fs = Inr fs"
| "copy_groups_loop w similar_dir i (grp # rest) fs =
     (let group_dir = path_join similar_dir (''group_'' @ str_nat (i + 1)) in
      case copy_group_loop w group_dir 0 grp fs of
        Inl e \<Rightarrow> Inl e
      | Inr fs' \<Rightarrow> copy_groups_loop w similar_dir (i + 1) rest fs')"

section \<open>The whole run (lines 38--155)\<close>

text \<open>
  What a run reports and leaves behind: the four printed numbers, the similar groups
  and the output tree.
\<close>

record report =
  total_images :: nat
  duplicate_count :: int
  unique_count :: nat
  similar_groups :: "path list list"
  output_tree :: store

definition organize_icons :: "world \<Rightarrow> path list \<Rightarrow> path \<Rightarrow> int \<Rightarrow> store \<Rightarrow> py_error + report" where
  "organize_icons w all_images output_dir similarity_threshold fs =
     (case dedup_loop (md5_groups w all_images) ([], 0) of
        Inl e \<Rightarrow> Inl e
      | Inr (unique_images, dup_count) \<Rightarrow>
          (let pgroups = phash_groups w unique_images in
           case cluster_pass similarity_threshold pgroups of
             (sim_groups, processed_hashes) \<Rightarrow>
               (let unique_dir = path_join output_dir ''unique_icons'';
                    similar_dir = path_join output_dir ''similar_groups''
                in case copy_unique_loop w unique_dir processed_hashes pgroups (fs, 0) of
                     Inl e \<Rightarrow> Inl e
                   | Inr (fs1, uniq_count) \<Rightarrow>
                       (case copy_groups_loop w similar_dir 0 sim_groups fs1 of
                          Inl e \<Rightarrow> Inl e
                        | Inr fs2 \<Rightarrow>
                            Inr \<lparr>total_images = length all_images,
                                 duplicate_count = dup_count,
                                 unique_count = uniq_count,
                                 similar_groups = sim_groups,
                                 output_tree = fs2\<rparr>))))"

section \<open>Notions the properties are stated with\<close>

text \<open>
  The truthy hashes the paths of a list produce, in discovery order, and the paths that
  are the first discovered with their hash: position \<open>i\<close> counts when its hash is truthy
  and no earlier position has the same hash.
\<close>

definition produced_digests :: "(path \<Rightarrow> string option) \<Rightarrow> path list \<Rightarrow> string list" where
  "produced_digests hash_of xs =
     concat (map (\<lambda>p. case hash_of p of
                          None \<Rightarrow> []
                        | Some h \<Rightarrow> if h \<noteq> [] then [h] else []) xs)"

definition first_discovered :: "(path \<Rightarrow> string option) \<Rightarrow> path list \<Rightarrow> path list" where
  "first_discovered hash_of xs =
     map (\<lambda>i. xs ! i)
       (filter (\<lambda>i. truthy (hash_of (xs ! i)) \<and>
                     (\<forall>q\<in>set (take i xs). hash_of q \<noteq> hash_of (xs ! i)))
          [0..<length xs])"

text \<open>The number of paths a dictionary of groups holds.\<close>

definition group_sizes :: "groups \<Rightarrow> nat" where
  "group_sizes d = sum_list (map (\<lambda>kv. length (snd kv)) d)"

text \<open>All the paths a dictionary of groups holds.\<close>

definition group_paths :: "groups \<Rightarrow> path set" where
  "group_paths d = (\<Union>kv\<in>set d. set (snd kv))"

text \<open>
  The number of positions at which two strings differ, the positions being those both
  strings have.
\<close>

definition mismatch_count :: "string \<Rightarrow> string \<Rightarrow> nat" where
  "mismatch_count a b =
     length (filter (\<lambda>i. a ! i \<noteq> b ! i) [0..<min (length a) (length b)])"

text \<open>
  A group \<open>kv\<close> that the seed \<open>F\<close> merges when the processed set is \<open>P\<close>: another
  fingerprint, not yet processed, at most \<open>T\<close> mismatches away.
\<close>

definition within_threshold :: "int \<Rightarrow> string \<Rightarrow> string set \<Rightarrow> string \<times> path list \<Rightarrow> bool" where
  "within_threshold T F P kv =
     (fst kv \<noteq> F \<and> fst kv \<notin> P \<and> int (mismatch_count F (fst kv)) \<le> T)"

text \<open>
  The outer loop once more, keeping a record of every cluster it builds, retained or
  not: the seed, the fingerprints that its merge scan marked processed, and the cluster.
  Lemma \<open>cluster_loop_trace\<close> shows that the retained groups of \<open>cluster_loop\<close> are the
  clusters of this record with more than one path.
\<close>

fun cluster_trace :: "int \<Rightarrow> groups \<Rightarrow> groups \<Rightarrow> string set \<Rightarrow> (string \<times> string set \<times> path list) list" where
  "cluster_trace threshold all_groups [] processed_hashes = []"
| "cluster_trace threshold all_groups ((phash, file_paths) # todo) processed_hashes =
     (if phash \<in> processed_hashes
      then cluster_trace threshold all_groups todo processed_hashes
      else
        (case merge_scan threshold phash all_groups (file_paths, insert phash processed_hashes) of
           (similar_group, processed_hashes') \<Rightarrow>
             (phash, processed_hashes' - insert phash processed_hashes, similar_group) #
             cluster_trace threshold all_groups todo processed_hashes'))"

text \<open>The cluster that the pass builds for the seed \<open>F\<close>, if \<open>F\<close> seeds one.\<close>

definition seed_cluster :: "int \<Rightarrow> groups \<Rightarrow> string \<Rightarrow> path list option" where
  "seed_cluster T gs F = map_of (map (\<lambda>e. (fst e, snd (snd e))) (cluster_trace T gs gs {})) F"

section \<open>Example inputs\<close>

text \<open>
  A world given by tables: the readable files with their contents, the MD5 digest of
  each content (the digests below are the real ones of these one- and two-byte contents)
  and the fingerprint of each content that decodes as an image.
\<close>

definition table_world :: "(path \<times> bytes) list \<Rightarrow> (bytes \<times> string) list \<Rightarrow> (bytes \<times> string) list \<Rightarrow> world" where
  "table_world files digests fingerprints =
     \<lparr>read_file = map_of files,
      md5_hexdigest = (\<lambda>b. case map_of digests b of
                              Some d \<Rightarrow> d
                            | None \<Rightarrow> ''d41d8cd98f00b204e9800998ecf8427e''),
      phash_str = map_of fingerprints\<rparr>"

text \<open>
  The three-file scenario: \<^verbatim>\<open>b.png\<close> has the bytes of \<^verbatim>\<open>a.png\<close>, and the
  fingerprint of \<^verbatim>\<open>c.png\<close> differs from that of \<^verbatim>\<open>a.png\<close> in one position. There
  is also a vector file that does not decode; \<^verbatim>\<open>in/gone.png\<close> cannot be read.
\<close>

definition scenario_world :: world where
  "scenario_world =
     table_world
       [(''in/a.png'', ''A''), (''in/b.png'', ''A''), (''in/c.png'', ''C''), (''in/v.svg'', ''S'')]
       [(''A'', ''7fc56270e7a70fa81a5935b72eacbe29''),
        (''C'', ''0d61f8370cad1d412f80b84d143e1257''),
        (''S'', ''5dbc98dcc983a70728bd082d1a47546e'')]
       [(''A'', ''c3c33c3c99996666''), (''C'', ''c3c33c3c99996667'')]"

definition scenario_images :: "path list" where
  "scenario_images = [''in/a.png'', ''in/b.png'', ''in/c.png'']"

text \<open>The scenario's files together with the unreadable file and the vector file.\<close>

definition mixed_images :: "path list" where
  "mixed_images = ''in/gone.png'' # scenario_images @ [''in/v.svg'']"

text \<open>
  Four files for the effect of the threshold: the fingerprint of \<^verbatim>\<open>g.png\<close> is two
  mismatches from that of \<^verbatim>\<open>a.png\<close> and one from the common fingerprint of
  \<^verbatim>\<open>f1.png\<close> and \<^verbatim>\<open>f2.png\<close>, which is three from that of \<^verbatim>\<open>a.png\<close>.
\<close>

definition threshold_world :: world where
  "threshold_world =
     table_world
       [(''t/a.png'', ''A''), (''t/f1.png'', ''F1''), (''t/f2.png'', ''F2''), (''t/g.png'', ''G'')]
       [(''A'', ''7fc56270e7a70fa81a5935b72eacbe29''),
        (''F1'', ''e1dffc8709f31a4987c8a88334107e89''),
        (''F2'', ''fe5c3684dce76cdd9f7f42430868aa74''),
        (''G'', ''dfcf28d0734569a6a693bc8194de62bf'')]
       [(''A'', ''0000000000000000''), (''F1'', ''0000000000000111''),
        (''F2'', ''0000000000000111''), (''G'', ''0000000000000011'')]"

definition threshold_images :: "path list" where
  "threshold_images = [''t/a.png'', ''t/f1.png'', ''t/f2.png'', ''t/g.png'']"

text \<open>
  Three files with different contents and fingerprints one mismatch apart, two of them
  with the same file name and the third with that name and the suffix \<^verbatim>\<open>_2\<close>.
\<close>

definition collision_world :: world where
  "collision_world =
     table_world
       [(''x/icon_2.png'', ''X''), (''y/icon.png'', ''Y''), (''z/icon.png'', ''Z'')]
       [(''X'', ''02129bb861061d1a052c592e2dc6b383''),
        (''Y'', ''57cec4137b614c87cb4e24a3d003a3e0''),
        (''Z'', ''21c2e59531c8710156d34a3c30ac81d5'')]
       [(''X'', ''f0f0a5a5c3c30000''), (''Y'', ''f0f0a5a5c3c30001''), (''Z'', ''f0f0a5a5c3c30002'')]"

definition collision_images :: "path list" where
  "collision_images = [''x/icon_2.png'', ''y/icon.png'', ''z/icon.png'']"

section \<open>Grouping: what the dictionaries hold\<close>

lemma group_loop_snoc:
  "group_loop h (xs @ [x]) d =
     (case h x of
        None \<Rightarrow> group_loop h xs d
      | Some k \<Rightarrow> if k \<noteq> [] then dict_append k x (group_loop h xs d) else group_loop h xs d)"
  by (induction xs arbitrary: d) (auto split: option.splits)

lemma keys_dict_append:
  "map fst (dict_append k v d) = (if k \<in> fst ` set d then map fst d else map fst d @ [k])"
  by (induction d) force+

lemma map_of_dict_append:
  "map_of (dict_append k v d) =
     (map_of d)(k \<mapsto> (case map_of d k of None \<Rightarrow> [v] | Some vs \<Rightarrow> vs @ [v]))"
  by (induction d) (auto simp: fun_eq_iff)

lemma group_sizes_dict_append: "group_sizes (dict_append k v d) = Suc (group_sizes d)"
  by (induction d) (auto simp: group_sizes_def)

lemma heads_dict_append:
  "\<forall>kv\<in>set d. snd kv \<noteq> [] \<Longrightarrow>
   map (\<lambda>kv. hd (snd kv)) (dict_append k v d) =
     (if k \<in> fst ` set d then map (\<lambda>kv. hd (snd kv)) d else map (\<lambda>kv. hd (snd kv)) d @ [v])"
  by (induction d) force+

lemma nonempty_dict_append:
  "\<forall>kv\<in>set d. snd kv \<noteq> [] \<Longrightarrow> \<forall>kv\<in>set (dict_append k v d). snd kv \<noteq> []"
  by (induction d) (fastforce split: if_splits)+

lemma group_loop_distinct: "distinct (map fst (group_loop h xs []))"
  by (induction xs rule: rev_induct) (auto simp: group_loop_snoc keys_dict_append split: option.splits)

lemma group_loop_nonempty: "\<forall>kv\<in>set (group_loop h xs []). snd kv \<noteq> []"
proof (induction xs rule: rev_induct)
  case Nil
  then show ?case by simp
next
  case (snoc x xs)
  then show ?case
    using nonempty_dict_append [of "group_loop h xs []"]
    by (simp add: group_loop_snoc split: option.splits)
qed

lemma group_loop_map_of:
  "map_of (group_loop h xs []) k =
     (if k \<noteq> [] \<and> (\<exists>p\<in>set xs. h p = Some k) then Some (filter (\<lambda>p. h p = Some k) xs) else None)"
proof (induction xs rule: rev_induct)
  case Nil
  then show ?case by simp
next
  case (snoc x xs)
  then show ?case
    by (auto simp: group_loop_snoc map_of_dict_append split: option.splits)
qed

lemma group_loop_keys:
  "fst ` set (group_loop h xs []) = {k. k \<noteq> [] \<and> (\<exists>p\<in>set xs. h p = Some k)}"
proof -
  have "fst ` set (group_loop h xs []) = dom (map_of (group_loop h xs []))"
    by (simp add: dom_map_of_conv_image_fst)
  also have "\<dots> = {k. k \<noteq> [] \<and> (\<exists>p\<in>set xs. h p = Some k)}"
    by (auto simp: dom_def group_loop_map_of)
  finally show ?thesis .
qed

lemma group_loop_keys_digests: "fst ` set (group_loop h xs []) = set (produced_digests h xs)"
  by (auto simp: group_loop_keys produced_digests_def split: option.splits if_splits)

lemma group_loop_sizes: "group_sizes (group_loop h xs []) = length (produced_digests h xs)"
proof (induction xs rule: rev_induct)
  case Nil
  then show ?case by (simp add: group_sizes_def produced_digests_def)
next
  case (snoc x xs)
  then show ?case
    by (auto simp: group_loop_snoc group_sizes_dict_append produced_digests_def split: option.splits)
qed

lemma group_loop_entry:
  "(k, ps) \<in> set (group_loop h xs []) \<Longrightarrow> ps = filter (\<lambda>p. h p = Some k) xs \<and> ps \<noteq> [] \<and> k \<noteq> []"
  using group_loop_map_of [of h xs k] group_loop_distinct [of h xs] group_loop_nonempty [of h xs]
  by (auto split: if_splits)

lemma first_discovered_snoc:
  "first_discovered h (xs @ [x]) =
     first_discovered h xs @
       (if truthy (h x) \<and> (\<forall>p\<in>set xs. h p \<noteq> h x) then [x] else [])"
proof -
  have a: "filter (\<lambda>i. truthy (h ((xs @ [x]) ! i)) \<and>
                      (\<forall>q\<in>set (take i (xs @ [x])). h q \<noteq> h ((xs @ [x]) ! i))) [0..<length xs]
         = filter (\<lambda>i. truthy (h (xs ! i)) \<and> (\<forall>q\<in>set (take i xs). h q \<noteq> h (xs ! i))) [0..<length xs]"
    by (rule filter_cong) (auto simp: nth_append)
  have b: "map (\<lambda>i. (xs @ [x]) ! i)
             (filter (\<lambda>i. truthy (h (xs ! i)) \<and> (\<forall>q\<in>set (take i xs). h q \<noteq> h (xs ! i))) [0..<length xs])
         = map (\<lambda>i. xs ! i)
             (filter (\<lambda>i. truthy (h (xs ! i)) \<and> (\<forall>q\<in>set (take i xs). h q \<noteq> h (xs ! i))) [0..<length xs])"
    by (rule map_cong) (auto simp: nth_append)
  have c: "take (length xs) (xs @ [x]) = xs"
    by simp
  show ?thesis
    unfolding first_discovered_def
    by (simp add: a b c del: take_append)
qed

lemma group_loop_heads:
  "map (\<lambda>kv. hd (snd kv)) (group_loop h xs []) = first_discovered h xs"
proof (induction xs rule: rev_induct)
  case Nil
  then show ?case by (simp add: first_discovered_def)
next
  case (snoc x xs)
  show ?case
  proof (cases "truthy (h x)")
    case False
    then show ?thesis
      using snoc by (auto simp: group_loop_snoc first_discovered_snoc truthy_def split: option.splits)
  next
    case True
    then obtain k where k: "h x = Some k" "k \<noteq> []"
      by (auto simp: truthy_def split: option.splits)
    have "(k \<in> fst ` set (group_loop h xs [])) = (\<exists>p\<in>set xs. h p = h x)"
      using k by (simp add: group_loop_keys)
    then show ?thesis
      using snoc k True group_loop_nonempty [of h xs]
      by (simp add: group_loop_snoc first_discovered_snoc heads_dict_append)
  qed
qed

lemma dedup_loop_result:
  "\<forall>kv\<in>set d. snd kv \<noteq> [] \<Longrightarrow>
   dedup_loop d (us, n) =
     Inr (us @ map (\<lambda>kv. hd (snd kv)) d, n + int (group_sizes d) - int (length d))"
proof (induction d arbitrary: us n)
  case Nil
  then show ?case by (simp add: group_sizes_def)
next
  case (Cons a d)
  obtain k ps where a: "a = (k, ps)" by (cases a)
  with Cons.prems obtain p ps' where ps: "ps = p # ps'" by (cases ps) auto
  show ?case
    using Cons.prems Cons.IH [of "us @ [p]" "n + int (length ps) - 1"]
    by (simp add: a ps group_sizes_def)
qed

lemma dedup_group_loop:
  "dedup_loop (group_loop h xs []) ([], 0) =
     Inr (first_discovered h xs,
          int (length (produced_digests h xs)) - int (card (set (produced_digests h xs))))"
proof -
  let ?d = "group_loop h xs []"
  have "length ?d = card (set (produced_digests h xs))"
    using group_loop_distinct [of h xs] group_loop_keys_digests [of h xs]
    by (metis distinct_card length_map set_map)
  then show ?thesis
    using dedup_loop_result [of ?d "[]" 0] group_loop_nonempty [of h xs]
    by (simp add: group_loop_heads group_loop_sizes)
qed

section \<open>The clustering pass and the copy loops\<close>

lemma merge_scan_processed_mono: "P \<subseteq> snd (merge_scan T F gs (g, P))"
proof (induction gs arbitrary: g P)
  case Nil
  then show ?case by simp
next
  case (Cons a gs)
  obtain G ps where a: "a = (G, ps)" by (cases a)
  show ?case
    using Cons.IH [of "insert G P" "g @ ps"] Cons.IH [of P g]
    by (auto simp: a)
qed

lemma cluster_loop_processed:
  "P \<union> fst ` set todo \<subseteq> snd (cluster_loop T gs todo (sgs, P))"
proof (induction todo arbitrary: sgs P)
  case Nil
  then show ?case by simp
next
  case (Cons a todo)
  obtain F fps where a: "a = (F, fps)" by (cases a)
  show ?case
  proof (cases "F \<in> P")
    case True
    then show ?thesis
      using Cons.IH [of P sgs] by (auto simp: a)
  next
    case False
    obtain C P' where m: "merge_scan T F gs (fps, insert F P) = (C, P')"
      by (cases "merge_scan T F gs (fps, insert F P)")
    have "insert F P \<subseteq> P'"
      using merge_scan_processed_mono [of "insert F P" T F gs fps] by (simp add: m)
    then show ?thesis
      using Cons.IH [of P' "if length C > 1 then sgs @ [C] else sgs"] False
      by (auto simp: a m)
  qed
qed

lemma copy_unique_loop_skip:
  "fst ` set gs \<subseteq> P \<Longrightarrow> copy_unique_loop w ud P gs st = Inr st"
proof (induction gs arbitrary: st)
  case Nil
  then show ?case by simp
next
  case (Cons a gs)
  obtain F fps where a: "a = (F, fps)" by (cases a)
  obtain fs n where st: "st = (fs, n)" by (cases st)
  show ?case
    using Cons by (simp add: a st)
qed

lemma copy_group_loop_ok:
  "\<forall>p\<in>set grp. read_file w p \<noteq> None \<Longrightarrow> \<exists>fs'. copy_group_loop w gd j grp fs = Inr fs'"
proof (induction grp arbitrary: j fs)
  case Nil
  then show ?case by simp
next
  case (Cons p grp)
  then obtain content where "read_file w p = Some content" by auto
  then show ?case
    using Cons by (simp add: copy2_def Let_def)
qed

lemma copy_groups_loop_ok:
  "\<forall>g\<in>set sgs. \<forall>p\<in>set g. read_file w p \<noteq> None \<Longrightarrow>
   \<exists>fs'. copy_groups_loop w sd i sgs fs = Inr fs'"
proof (induction sgs arbitrary: i fs)
  case Nil
  then show ?case by simp
next
  case (Cons g sgs)
  then obtain fs1 where
    "copy_group_loop w (path_join sd (''group_'' @ str_nat (i + 1))) 0 g fs = Inr fs1"
    using copy_group_loop_ok [of g w] by fastforce
  then show ?case
    using Cons by (simp add: Let_def)
qed

lemma merge_scan_paths:
  "set (fst (merge_scan T F gs (g, P))) \<subseteq> set g \<union> group_paths gs"
proof (induction gs arbitrary: g P)
  case Nil
  then show ?case by simp
next
  case (Cons a gs)
  obtain G ps where a: "a = (G, ps)" by (cases a)
  show ?case
    using Cons.IH [of "g @ ps" "insert G P"] Cons.IH [of g P]
    by (auto simp: a group_paths_def)
qed

lemma cluster_loop_paths:
  "group_paths todo \<subseteq> group_paths gs \<Longrightarrow>
   \<Union> (set ` set (fst (cluster_loop T gs todo (sgs, P)))) \<subseteq> \<Union> (set ` set sgs) \<union> group_paths gs"
proof (induction todo arbitrary: sgs P)
  case Nil
  then show ?case by simp
next
  case (Cons a todo)
  obtain F fps where a: "a = (F, fps)" by (cases a)
  have todo: "group_paths todo \<subseteq> group_paths gs" and fps: "set fps \<subseteq> group_paths gs"
    using Cons.prems by (auto simp: a group_paths_def)
  show ?case
  proof (cases "F \<in> P")
    case True
    then show ?thesis
      using Cons.IH [OF todo, of sgs P] by (simp add: a)
  next
    case False
    obtain C P' where m: "merge_scan T F gs (fps, insert F P) = (C, P')"
      by (cases "merge_scan T F gs (fps, insert F P)")
    have C: "set C \<subseteq> group_paths gs"
      using merge_scan_paths [of T F gs fps "insert F P"] fps by (simp add: m) blast
    show ?thesis
      using Cons.IH [OF todo, of "if length C > 1 then sgs @ [C] else sgs" P'] False C
      by (auto simp: a m split: if_splits)
  qed
qed

lemma cluster_pass_paths: "\<Union> (set ` set (fst (cluster_pass T gs))) \<subseteq> group_paths gs"
  using cluster_loop_paths [of gs gs T "[]" "{}"] by (simp add: cluster_pass_def)

lemma group_loop_paths_hash:
  "p \<in> group_paths (group_loop h xs []) \<Longrightarrow> truthy (h p) \<and> p \<in> set xs"
  using group_loop_entry [of _ _ h xs]
  by (fastforce simp: group_paths_def truthy_def)

lemma phash_groups_readable:
  "p \<in> group_paths (phash_groups w us) \<Longrightarrow> read_file w p \<noteq> None"
  using group_loop_paths_hash [of p "calculate_image_hash w" us]
  by (auto simp: phash_groups_def truthy_def calculate_image_hash_def split: option.splits)

lemma organize_icons_run:
  "\<exists>fs'.
     copy_groups_loop w (path_join output_dir ''similar_groups'') 0
       (fst (cluster_pass T (phash_groups w (first_discovered (calculate_file_md5 w) all_images)))) fs
       = Inr fs' \<and>
     organize_icons w all_images output_dir T fs =
       Inr \<lparr>total_images = length all_images,
            duplicate_count =
              int (length (produced_digests (calculate_file_md5 w) all_images)) -
              int (card (set (produced_digests (calculate_file_md5 w) all_images))),
            unique_count = 0,
            similar_groups =
              fst (cluster_pass T (phash_groups w (first_discovered (calculate_file_md5 w) all_images))),
            output_tree = fs'\<rparr>"
proof -
  let ?us = "first_discovered (calculate_file_md5 w) all_images"
  let ?pg = "phash_groups w ?us"
  obtain sgs P where cp: "cluster_pass T ?pg = (sgs, P)"
    by (cases "cluster_pass T ?pg")
  have keys: "fst ` set ?pg \<subseteq> P"
    using cluster_loop_processed [of "{}" ?pg T ?pg "[]"] by (simp add: cluster_pass_def [symmetric] cp)
  have "\<forall>g\<in>set sgs. \<forall>p\<in>set g. read_file w p \<noteq> None"
    using cluster_pass_paths [of T ?pg] phash_groups_readable [of _ w ?us]
    by (auto simp: cp)
  then obtain fs' where
    cg: "copy_groups_loop w (path_join output_dir ''similar_groups'') 0 sgs fs = Inr fs'"
    using copy_groups_loop_ok [of sgs w] by blast
  show ?thesis
    by (simp add: organize_icons_def md5_groups_def dedup_group_loop cp cg copy_unique_loop_skip [OF keys] Let_def)
qed

section \<open>The merge scan in closed form\<close>

lemma hamming_distance_mismatch: "hamming_distance a b = mismatch_count a b"
proof (induction a arbitrary: b)
  case Nil
  then show ?case by (simp add: hamming_distance_def mismatch_count_def)
next
  case (Cons x a)
  show ?case
  proof (cases b)
    case Nil
    then show ?thesis by (simp add: hamming_distance_def mismatch_count_def)
  next
    case (Cons y b')
    have "[0..<Suc (min (length a) (length b'))] = 0 # map Suc [0..<min (length a) (length b')]"
      by (simp add: upt_conv_Cons map_Suc_upt del: upt_Suc)
    then show ?thesis
      using Cons.IH [of b']
      by (simp add: Cons hamming_distance_def mismatch_count_def filter_map o_def del: upt_Suc)
  qed
qed

lemma merge_scan_closed:
  "distinct (map fst gs) \<Longrightarrow>
   merge_scan T F gs (g, P) =
     (g @ concat (map snd (filter (within_threshold T F P) gs)),
      P \<union> fst ` set (filter (within_threshold T F P) gs))"
proof (induction gs arbitrary: g P)
  case Nil
  then show ?case by simp
next
  case (Cons a gs)
  obtain G ps where a: "a = (G, ps)" by (cases a)
  have G: "G \<notin> fst ` set gs" and d: "distinct (map fst gs)"
    using Cons.prems by (auto simp: a)
  have same: "filter (within_threshold T F (insert G P)) gs = filter (within_threshold T F P) gs"
    by (rule filter_cong) (use G in \<open>auto simp: within_threshold_def\<close>)
  show ?case
  proof (cases "within_threshold T F P (G, ps)")
    case True
    then show ?thesis
      using Cons.IH [OF d, of "g @ ps" "insert G P"]
      by (simp add: a same) (auto simp: within_threshold_def hamming_distance_mismatch)
  next
    case False
    then have "merge_scan T F ((G, ps) # gs) (g, P) = merge_scan T F gs (g, P)"
      by (auto simp: within_threshold_def hamming_distance_mismatch)
    then show ?thesis
      using Cons.IH [OF d, of g P] False by (simp add: a)
  qed
qed

lemma cluster_loop_trace:
  "fst (cluster_loop T gs todo (sgs, P)) =
     sgs @ filter (\<lambda>C. 1 < length C) (map (\<lambda>e. snd (snd e)) (cluster_trace T gs todo P))"
proof (induction todo arbitrary: sgs P)
  case Nil
  then show ?case by simp
next
  case (Cons a todo)
  obtain F fps where a: "a = (F, fps)" by (cases a)
  show ?case
  proof (cases "F \<in> P")
    case True
    then show ?thesis
      using Cons.IH [of sgs P] by (simp add: a)
  next
    case False
    obtain C P' where m: "merge_scan T F gs (fps, insert F P) = (C, P')"
      by (cases "merge_scan T F gs (fps, insert F P)")
    show ?thesis
      using Cons.IH [of "sgs @ [C]" P'] Cons.IH [of sgs P'] False
      by (simp add: a m)
  qed
qed

lemma cluster_loop_Cons:
  "cluster_loop T gs (kv # todo) st = cluster_loop T gs todo (cluster_loop T gs [kv] st)"
proof -
  obtain F fps where kv: "kv = (F, fps)" by (cases kv)
  obtain sgs P where st: "st = (sgs, P)" by (cases st)
  show ?thesis
    by (simp add: kv st split: prod.splits)
qed

lemma cluster_loop_foldl:
  "cluster_loop T gs todo st = foldl (\<lambda>s kv. cluster_loop T gs [kv] s) st todo"
proof (induction todo arbitrary: st)
  case Nil
  then show ?case by simp
next
  case (Cons kv todo)
  show ?case
    using Cons.IH [of "cluster_loop T gs [kv] st"] cluster_loop_Cons [of T gs kv todo st]
    by simp
qed

section \<open>Where the paths and marks of a cluster come from\<close>

lemma merge_scan_new_keys:
  "G \<in> snd (merge_scan T F gs (g, P)) \<Longrightarrow> G \<notin> P \<Longrightarrow>
   G \<noteq> F \<and> int (mismatch_count F G) \<le> T \<and> G \<in> fst ` set gs"
proof (induction gs arbitrary: g P)
  case Nil
  then show ?case by simp
next
  case (Cons a gs)
  obtain G' ps where a: "a = (G', ps)" by (cases a)
  show ?case
  proof (cases "G' \<noteq> F \<and> G' \<notin> P \<and> int (hamming_distance F G') \<le> T")
    case True
    then have m: "merge_scan T F (a # gs) (g, P) = merge_scan T F gs (g @ ps, insert G' P)"
      by (simp add: a)
    show ?thesis
    proof (cases "G = G'")
      case True
      then show ?thesis
        using \<open>G' \<noteq> F \<and> G' \<notin> P \<and> int (hamming_distance F G') \<le> T\<close>
        by (simp add: a hamming_distance_mismatch)
    next
      case False
      then show ?thesis
        using Cons.IH [of "g @ ps" "insert G' P"] Cons.prems by (simp add: m)
    qed
  next
    case False
    then have "merge_scan T F (a # gs) (g, P) = merge_scan T F gs (g, P)"
      by (auto simp: a)
    then show ?thesis
      using Cons.IH [of g P] Cons.prems by (simp add: a)
  qed
qed

lemma merge_scan_prefix: "\<exists>rest. fst (merge_scan T F gs (g, P)) = g @ rest"
proof (induction gs arbitrary: g P)
  case Nil
  then show ?case by simp
next
  case (Cons a gs)
  obtain G ps where a: "a = (G, ps)" by (cases a)
  show ?case
    using Cons.IH [of "g @ ps" "insert G P"] Cons.IH [of g P]
    by (auto simp: a)
qed

lemma merge_scan_path_origin:
  "p \<in> set (fst (merge_scan T F gs (g, P))) \<Longrightarrow>
   p \<in> set g \<or>
   (\<exists>G ps. (G, ps) \<in> set gs \<and> p \<in> set ps \<and> G \<notin> P \<and> G \<in> snd (merge_scan T F gs (g, P)))"
proof (induction gs arbitrary: g P)
  case Nil
  then show ?case by simp
next
  case (Cons a gs)
  obtain G' ps' where a: "a = (G', ps')" by (cases a)
  show ?case
  proof (cases "G' \<noteq> F \<and> G' \<notin> P \<and> int (hamming_distance F G') \<le> T")
    case True
    then have m: "merge_scan T F (a # gs) (g, P) = merge_scan T F gs (g @ ps', insert G' P)"
      by (simp add: a)
    have G': "G' \<in> snd (merge_scan T F gs (g @ ps', insert G' P))"
      using merge_scan_processed_mono [of "insert G' P" T F gs "g @ ps'"] by blast
    consider "p \<in> set g" | "p \<in> set ps'"
      | G ps where "(G, ps) \<in> set gs" "p \<in> set ps" "G \<notin> insert G' P"
          "G \<in> snd (merge_scan T F gs (g @ ps', insert G' P))"
      using Cons.IH [of "g @ ps'" "insert G' P"] Cons.prems by (auto simp: m)
    then show ?thesis
    proof cases
      case 1
      then show ?thesis by simp
    next
      case 2
      then show ?thesis
        using True G' by (auto simp: m a)
    next
      case 3
      then show ?thesis
        by (simp add: m) (auto simp: a)
    qed
  next
    case False
    then have m: "merge_scan T F (a # gs) (g, P) = merge_scan T F gs (g, P)"
      by (auto simp: a)
    show ?thesis
      using Cons.IH [of g P] Cons.prems by (simp add: m) (auto simp: a)
  qed
qed

lemma trace_entry:
  "(F, M, C) \<in> set (cluster_trace T gs todo P) \<Longrightarrow>
   \<exists>fps P0. (F, fps) \<in> set todo \<and> F \<notin> P0 \<and>
     C = fst (merge_scan T F gs (fps, insert F P0)) \<and>
     M = snd (merge_scan T F gs (fps, insert F P0)) - insert F P0"
proof (induction todo arbitrary: P)
  case Nil
  then show ?case by simp
next
  case (Cons a todo)
  obtain F' fps' where a: "a = (F', fps')" by (cases a)
  show ?case
  proof (cases "F' \<in> P")
    case True
    then show ?thesis
      using Cons.IH [of P] Cons.prems by (auto simp: a)
  next
    case False
    obtain C' P' where m: "merge_scan T F' gs (fps', insert F' P) = (C', P')"
      by (cases "merge_scan T F' gs (fps', insert F' P)")
    consider "(F, M, C) = (F', P' - insert F' P, C')" | "(F, M, C) \<in> set (cluster_trace T gs todo P')"
      using Cons.prems False by (auto simp: a m)
    then show ?thesis
    proof cases
      case 1
      then have "(F, fps') \<in> set (a # todo) \<and> F \<notin> P \<and>
                 C = fst (merge_scan T F gs (fps', insert F P)) \<and>
                 M = snd (merge_scan T F gs (fps', insert F P)) - insert F P"
        using False m by (auto simp: a)
      then show ?thesis by blast
    next
      case 2
      then show ?thesis
        using Cons.IH [of P'] by (auto simp: a)
    qed
  qed
qed

section \<open>Two files with the same bytes and a near third\<close>

lemma three_file_stages:
  assumes files: "read_file w x = Some ca" "read_file w y = Some ca" "read_file w c = Some cc"
      and digests: "md5_hexdigest w ca \<noteq> md5_hexdigest w cc"
                   "md5_hexdigest w ca \<noteq> []" "md5_hexdigest w cc \<noteq> []"
      and md5: "md5_groups w imgs = d"
      and d: "d = [(md5_hexdigest w ca, [x, y]), (md5_hexdigest w cc, [c])] \<and> g = [x, c] \<or>
              d = [(md5_hexdigest w cc, [c]), (md5_hexdigest w ca, [x, y])] \<and> g = [c, x]"
      and prints: "phash_str w ca = Some fa" "phash_str w cc = Some fc" "fa \<noteq> []" "fc \<noteq> []"
      and near: "int (mismatch_count fa fc) \<le> 2"
  shows "first_discovered (calculate_file_md5 w) imgs = g \<and>
         int (length (produced_digests (calculate_file_md5 w) imgs)) -
           int (card (set (produced_digests (calculate_file_md5 w) imgs))) = 1 \<and>
         fst (cluster_pass 2 (phash_groups w g)) = [g]"
proof -
  have xc: "x \<noteq> c" "y \<noteq> c"
    using files digests by auto
  have res: "dedup_loop d ([], 0) = Inr (g, 1)"
    using d by auto
  have us: "first_discovered (calculate_file_md5 w) imgs = g"
    using dedup_group_loop [of "calculate_file_md5 w" imgs] md5 res
    by (simp add: md5_groups_def)
  have dup: "int (length (produced_digests (calculate_file_md5 w) imgs)) -
        int (card (set (produced_digests (calculate_file_md5 w) imgs))) = 1"
    using dedup_group_loop [of "calculate_file_md5 w" imgs] md5 res
    by (simp add: md5_groups_def)
  have near': "int (mismatch_count fc fa) \<le> 2"
    using near by (simp add: mismatch_count_def min.commute eq_commute [of "fa ! _"])
  have sg: "fst (cluster_pass 2 (phash_groups w g)) = [g]"
  proof (cases "fa = fc")
    case True
    then have "phash_groups w g = [(fa, g)]"
      using files prints d by (auto simp: phash_groups_def calculate_image_hash_def)
    then show ?thesis
      using d by (auto simp: cluster_pass_def)
  next
    case False
    then have "phash_groups w g = [(fa, [x]), (fc, [c])] \<and> g = [x, c] \<or>
               phash_groups w g = [(fc, [c]), (fa, [x])] \<and> g = [c, x]"
      using files prints d by (auto simp: phash_groups_def calculate_image_hash_def)
    then show ?thesis
      using near near' False by (auto simp: cluster_pass_def hamming_distance_mismatch)
  qed
  show ?thesis
    using us dup sg by simp
qed

lemma three_file_run:
  assumes files: "read_file w x = Some ca" "read_file w y = Some ca" "read_file w c = Some cc"
      and digests: "md5_hexdigest w ca \<noteq> md5_hexdigest w cc"
                   "md5_hexdigest w ca \<noteq> []" "md5_hexdigest w cc \<noteq> []"
      and prints: "phash_str w ca = Some fa" "phash_str w cc = Some fc" "fa \<noteq> []" "fc \<noteq> []"
      and near: "int (mismatch_count fa fc) \<le> 2"
      and imgs: "imgs = [x, y, c] \<and> g = [x, c] \<or> imgs = [x, c, y] \<and> g = [x, c] \<or>
                 imgs = [c, x, y] \<and> g = [c, x]"
  shows "\<exists>r. organize_icons w imgs output_dir 2 fs = Inr r \<and>
             total_images r = 3 \<and> duplicate_count r = 1 \<and> unique_count r = 0 \<and>
             similar_groups r = [g]"
proof -
  have "md5_groups w imgs = [(md5_hexdigest w ca, [x, y]), (md5_hexdigest w cc, [c])] \<and> g = [x, c] \<or>
        md5_groups w imgs = [(md5_hexdigest w cc, [c]), (md5_hexdigest w ca, [x, y])] \<and> g = [c, x]"
    using files digests imgs by (auto simp: md5_groups_def calculate_file_md5_def)
  then have st: "first_discovered (calculate_file_md5 w) imgs = g \<and>
         int (length (produced_digests (calculate_file_md5 w) imgs)) -
           int (card (set (produced_digests (calculate_file_md5 w) imgs))) = 1 \<and>
         fst (cluster_pass 2 (phash_groups w g)) = [g]"
    using three_file_stages [OF files digests refl _ prints near, of imgs g] by blast
  have len: "length imgs = 3"
    using imgs by auto
  show ?thesis
    using organize_icons_run [of w output_dir 2 imgs fs]
    by (auto simp: st len)
qed

section \<open>The merge scan and the threshold\<close>

lemma merge_scan_mono_gen:
  "T1 \<le> T2 \<Longrightarrow> P1 \<subseteq> P2 \<Longrightarrow> \<forall>G\<in>P2 - P1. \<not> int (hamming_distance F G) \<le> T1 \<Longrightarrow>
   length g1 \<le> length g2 \<Longrightarrow>
   length (fst (merge_scan T1 F gs (g1, P1))) \<le> length (fst (merge_scan T2 F gs (g2, P2))) \<and>
   snd (merge_scan T1 F gs (g1, P1)) \<subseteq> snd (merge_scan T2 F gs (g2, P2))"
proof (induction gs arbitrary: g1 g2 P1 P2)
  case Nil
  then show ?case by simp
next
  case (Cons a gs)
  obtain G ps where a: "a = (G, ps)" by (cases a)
  let ?m1 = "G \<noteq> F \<and> G \<notin> P1 \<and> int (hamming_distance F G) \<le> T1"
  let ?m2 = "G \<noteq> F \<and> G \<notin> P2 \<and> int (hamming_distance F G) \<le> T2"
  show ?case
  proof (cases ?m1)
    case True
    then have m2: ?m2
      using Cons.prems by auto
    have "length (fst (merge_scan T1 F gs (g1 @ ps, insert G P1)))
            \<le> length (fst (merge_scan T2 F gs (g2 @ ps, insert G P2))) \<and>
          snd (merge_scan T1 F gs (g1 @ ps, insert G P1))
            \<subseteq> snd (merge_scan T2 F gs (g2 @ ps, insert G P2))"
      using Cons.prems by (intro Cons.IH) auto
    then show ?thesis
      using True m2 by (simp add: a)
  next
    case False
    then have s1: "merge_scan T1 F (a # gs) (g1, P1) = merge_scan T1 F gs (g1, P1)"
      by (auto simp: a)
    show ?thesis
    proof (cases ?m2)
      case True
      have "length (fst (merge_scan T1 F gs (g1, P1)))
              \<le> length (fst (merge_scan T2 F gs (g2 @ ps, insert G P2))) \<and>
            snd (merge_scan T1 F gs (g1, P1))
              \<subseteq> snd (merge_scan T2 F gs (g2 @ ps, insert G P2))"
        using Cons.prems False True by (intro Cons.IH) auto
      then show ?thesis
        using True by (simp add: s1) (simp add: a)
    next
      case False
      then have s2: "merge_scan T2 F (a # gs) (g2, P2) = merge_scan T2 F gs (g2, P2)"
        by (auto simp: a)
      show ?thesis
        using Cons.IH [of P1 P2 g1 g2] Cons.prems by (simp add: s1 s2)
    qed
  qed
qed

lemma seed_cluster_first:
  "seed_cluster T ((F, fps) # rest) F = Some (fst (merge_scan T F ((F, fps) # rest) (fps, {F})))"
  by (simp add: seed_cluster_def split: prod.splits)

section \<open>The clusters partition the fingerprinted paths\<close>

lemma group_sizes_split:
  "group_sizes (filter A gs) =
     group_sizes (filter (\<lambda>x. A x \<and> B x) gs) + group_sizes (filter (\<lambda>x. A x \<and> \<not> B x) gs)"
  by (induction gs) (auto simp: group_sizes_def)

lemma group_sizes_key:
  "distinct (map fst gs) \<Longrightarrow> (F, fps) \<in> set gs \<Longrightarrow>
   group_sizes (filter (\<lambda>kv. fst kv = F) gs) = length fps"
proof (induction gs)
  case Nil
  then show ?case by simp
next
  case (Cons a gs)
  show ?case
  proof (cases "a = (F, fps)")
    case True
    then have "filter (\<lambda>kv. fst kv = F) gs = []"
      using Cons.prems by (auto simp: filter_empty_conv image_iff)
    then show ?thesis
      using True by (simp add: group_sizes_def)
  next
    case False
    then have "fst a \<noteq> F"
      using Cons.prems by (cases a) (auto simp: image_iff)
    then show ?thesis
      using Cons False by (simp add: group_sizes_def)
  qed
qed

lemma length_concat_groups: "length (concat (map snd gs)) = group_sizes gs"
  by (induction gs) (auto simp: group_sizes_def)

lemma merge_scan_size:
  assumes d: "distinct (map fst gs)" and F: "(F, fps) \<in> set gs"
      and m: "merge_scan T F gs (fps, insert F P) = (C, P')"
  shows "group_sizes (filter (\<lambda>kv. fst kv \<notin> P) gs) =
           (if F \<in> P then 0 else length fps) + group_sizes (filter (within_threshold T F (insert F P)) gs) +
           group_sizes (filter (\<lambda>kv. fst kv \<notin> P') gs)"
    and "length C = length fps + group_sizes (filter (within_threshold T F (insert F P)) gs)"
proof -
  let ?wt = "within_threshold T F (insert F P)"
  have C: "C = fps @ concat (map snd (filter ?wt gs))"
    and P': "P' = insert F P \<union> fst ` set (filter ?wt gs)"
    using merge_scan_closed [OF d, of T F fps "insert F P"] m by auto
  show "length C = length fps + group_sizes (filter ?wt gs)"
    by (simp add: C length_concat_groups)
  have a: "filter (\<lambda>kv. fst kv \<notin> P \<and> fst kv = F) gs =
           (if F \<in> P then [] else filter (\<lambda>kv. fst kv = F) gs)"
    by (auto intro: filter_cong simp: filter_empty_conv)
  have b: "filter (\<lambda>kv. fst kv \<notin> P \<and> fst kv \<noteq> F \<and> ?wt kv) gs = filter ?wt gs"
    by (rule filter_cong) (auto simp: within_threshold_def)
  have c: "filter (\<lambda>kv. fst kv \<notin> P \<and> fst kv \<noteq> F \<and> \<not> ?wt kv) gs = filter (\<lambda>kv. fst kv \<notin> P') gs"
    by (rule filter_cong) (auto simp: P' within_threshold_def)
  have "group_sizes (filter (\<lambda>kv. fst kv \<notin> P) gs) =
          group_sizes (filter (\<lambda>kv. fst kv \<notin> P \<and> fst kv = F) gs) +
          group_sizes (filter (\<lambda>kv. fst kv \<notin> P \<and> fst kv \<noteq> F) gs)"
    by (rule group_sizes_split)
  also have "group_sizes (filter (\<lambda>kv. fst kv \<notin> P \<and> fst kv \<noteq> F) gs) =
          group_sizes (filter ?wt gs) + group_sizes (filter (\<lambda>kv. fst kv \<notin> P') gs)"
    using group_sizes_split [of "\<lambda>kv. fst kv \<notin> P \<and> fst kv \<noteq> F" gs ?wt] by (simp add: b c)
  finally show "group_sizes (filter (\<lambda>kv. fst kv \<notin> P) gs) =
           (if F \<in> P then 0 else length fps) + group_sizes (filter ?wt gs) +
           group_sizes (filter (\<lambda>kv. fst kv \<notin> P') gs)"
    using group_sizes_key [OF d F] by (simp add: a group_sizes_def)
qed

lemma trace_sizes:
  "distinct (map fst gs) \<Longrightarrow> gs = seen @ todo \<Longrightarrow> fst ` set seen \<subseteq> P \<Longrightarrow>
   sum_list (map (\<lambda>e. length (snd (snd e))) (cluster_trace T gs todo P)) =
     group_sizes (filter (\<lambda>kv. fst kv \<notin> P) gs)"
proof (induction todo arbitrary: seen P)
  case Nil
  then have "filter (\<lambda>kv. fst kv \<notin> P) gs = []"
    by (auto simp: filter_empty_conv)
  then show ?case by (simp add: group_sizes_def)
next
  case (Cons a todo)
  obtain F fps where a: "a = (F, fps)" by (cases a)
  have gs: "gs = (seen @ [a]) @ todo" and F: "(F, fps) \<in> set gs"
    using Cons.prems by (auto simp: a)
  show ?case
  proof (cases "F \<in> P")
    case True
    then have "fst ` set (seen @ [a]) \<subseteq> P"
      using Cons.prems by (auto simp: a)
    then show ?thesis
      using Cons.IH [OF Cons.prems(1) gs, of P] True by (simp add: a)
  next
    case False
    obtain C P' where m: "merge_scan T F gs (fps, insert F P) = (C, P')"
      by (cases "merge_scan T F gs (fps, insert F P)")
    have "insert F P \<subseteq> P'"
      using merge_scan_processed_mono [of "insert F P" T F gs fps] by (simp add: m)
    then have "fst ` set (seen @ [a]) \<subseteq> P'"
      using Cons.prems by (auto simp: a)
    then have "sum_list (map (\<lambda>e. length (snd (snd e))) (cluster_trace T gs todo P')) =
        group_sizes (filter (\<lambda>kv. fst kv \<notin> P') gs)"
      using Cons.IH [OF Cons.prems(1) gs, of P'] by simp
    then show ?thesis
      using merge_scan_size [OF Cons.prems(1) F m] False by (simp add: a m)
  qed
qed

lemma trace_clusters_nonempty:
  "\<forall>kv\<in>set todo. snd kv \<noteq> [] \<Longrightarrow> \<forall>e\<in>set (cluster_trace T gs todo P). snd (snd e) \<noteq> []"
proof (induction todo arbitrary: P)
  case Nil
  then show ?case by simp
next
  case (Cons a todo)
  obtain F fps where a: "a = (F, fps)" by (cases a)
  obtain C P' where m: "merge_scan T F gs (fps, insert F P) = (C, P')"
    by (cases "merge_scan T F gs (fps, insert F P)")
  have "C \<noteq> []"
    using merge_scan_prefix [of T F gs fps "insert F P"] Cons.prems by (auto simp: a m)
  then show ?case
    using Cons by (auto simp: a m)
qed

lemma sum_lengths_split:
  "\<forall>C\<in>set Cs. C \<noteq> [] \<Longrightarrow>
   sum_list (map length Cs) =
     sum_list (map length (filter (\<lambda>C. 1 < length C) Cs)) + length (filter (\<lambda>C. length C = 1) Cs)"
proof (induction Cs)
  case Nil
  then show ?case by simp
next
  case (Cons C Cs)
  then have "length C = 1 \<or> 1 < length C"
    by (cases C) auto
  then show ?case
    using Cons by auto
qed

lemma length_no_hash:
  "length xs = length (filter (\<lambda>p. \<not> truthy (h p)) xs) + length (produced_digests h xs)"
  by (induction xs) (auto simp: produced_digests_def truthy_def split: option.splits)

lemma length_first_discovered:
  "length (first_discovered h xs) = card (set (produced_digests h xs))"
proof -
  have "length (first_discovered h xs) = length (group_loop h xs [])"
    using group_loop_heads [of h xs] by (metis length_map)
  also have "\<dots> = card (set (produced_digests h xs))"
    using group_loop_distinct [of h xs] group_loop_keys_digests [of h xs]
    by (metis distinct_card length_map set_map)
  finally show ?thesis .
qed

section \<open>Paths without a hash\<close>

lemma group_loop_drop_failed:
  "group_loop h xs d = group_loop h (filter (\<lambda>q. h q \<noteq> None) xs) d"
  by (induction xs arbitrary: d) (auto split: option.splits)

section \<open>Evaluating the examples\<close>

lemmas world_simps =
  table_world_def scenario_world_def scenario_images_def
  calculate_file_md5_def calculate_image_hash_def md5_groups_def phash_groups_def

lemmas run_simps =
  organize_icons_def cluster_pass_def hamming_distance_def path_join_def basename_def
  splitext_def copy2_def path_exists_def str_nat.simps

lemma scenario_run:
  "\<exists>r. organize_icons scenario_world scenario_images ''out'' 2 Map.empty = Inr r \<and>
       total_images r = 3 \<and> duplicate_count r = 1 \<and> unique_count r = 0 \<and>
       similar_groups r = [[''in/a.png'', ''in/c.png'']]"
  by (simp add: world_simps run_simps)

lemmas threshold_simps = run_simps threshold_world_def threshold_images_def seed_cluster_def

lemma mixed_run:
  "\<exists>r. organize_icons scenario_world mixed_images ''out'' 0 Map.empty = Inr r \<and>
       total_images r = 5 \<and> duplicate_count r = 1 \<and> unique_count r = 0 \<and> similar_groups r = []"
  by (simp add: world_simps run_simps mixed_images_def)

lemmas collision_simps = collision_world_def collision_images_def

section \<open>The exact-duplicate stage\<close>

text \<open>
  Claim C7. The exact-duplicate stage (the MD5 grouping followed by the loop of lines
  73--75) never raises; its representatives are exactly the paths that are the first
  discovered with their digest, in discovery order; and its duplicate count is the number
  of paths that produced a digest minus the number of distinct digests.
\<close>

theorem exact_duplicate_stage:
  "dedup_loop (md5_groups w all_images) ([], 0) =
     Inr (first_discovered (calculate_file_md5 w) all_images,
          int (length (produced_digests (calculate_file_md5 w) all_images)) -
          int (card (set (produced_digests (calculate_file_md5 w) all_images))))"
  unfolding md5_groups_def by (rule dedup_group_loop)

theorem exact_duplicate_stage_witness:
  "dedup_loop (md5_groups scenario_world (''in/gone.png'' # scenario_images)) ([], 0) =
     Inr ([''in/a.png'', ''in/c.png''], 1)"
  using exact_duplicate_stage [of scenario_world "''in/gone.png'' # scenario_images"]
  by (simp add: world_simps first_discovered_def produced_digests_def truthy_def upt_rec_numeral)

section \<open>Every fingerprint ends up processed\<close>

text \<open>
  Claim C2. When the clustering loop finishes, every key of the fingerprint dictionary is
  in \<open>processed_hashes\<close>: a fingerprint is marked when it seeds a cluster or when it is
  merged. So the guard of the unique-icon loop (one path, fingerprint not processed)
  never holds: that loop returns the output tree and the counter as they were, and every
  run completes with \<open>unique_count = 0\<close>.
\<close>

theorem processed_covers_all_keys:
  "fst ` set gs \<subseteq> snd (cluster_pass T gs) \<and>
   copy_unique_loop w unique_dir (snd (cluster_pass T gs)) gs (fs, n) = Inr (fs, n) \<and>
   (\<exists>r. organize_icons w all_images output_dir T fs = Inr r \<and> unique_count r = 0)"
proof -
  have keys: "fst ` set gs \<subseteq> snd (cluster_pass T gs)"
    using cluster_loop_processed [of "{}" gs T gs "[]"] by (simp add: cluster_pass_def)
  obtain fs' r where "organize_icons w all_images output_dir T fs = Inr r" "unique_count r = 0"
    using organize_icons_run [of w output_dir T all_images fs] by auto
  then show ?thesis
    using keys copy_unique_loop_skip [OF keys] by blast
qed

theorem processed_covers_all_keys_witness:
  "fst ` set (phash_groups scenario_world [''in/a.png'', ''in/c.png''])
     \<subseteq> snd (cluster_pass 0 (phash_groups scenario_world [''in/a.png'', ''in/c.png''])) \<and>
   phash_groups scenario_world [''in/a.png'', ''in/c.png''] =
     [(''c3c33c3c99996666'', [''in/a.png'']), (''c3c33c3c99996667'', [''in/c.png''])] \<and>
   fst (cluster_pass 0 (phash_groups scenario_world [''in/a.png'', ''in/c.png''])) = [] \<and>
   (\<exists>r. organize_icons scenario_world scenario_images ''out'' 0 Map.empty = Inr r \<and> unique_count r = 0)"
  using processed_covers_all_keys
    [where gs = "phash_groups scenario_world [''in/a.png'', ''in/c.png'']" and T = 0
       and w = scenario_world and unique_dir = "''out/unique_icons''" and fs = Map.empty and n = 0
       and all_images = scenario_images and output_dir = "''out''"]
  by (simp add: world_simps cluster_pass_def hamming_distance_def)

section \<open>One seed of the clustering pass\<close>

text \<open>
  Claim C4. The distance the clustering pass uses is the number of positions at which the
  two strings differ (characters, not bits). For a seed \<open>F\<close> that is not yet processed,
  the merge scan returns the seed's paths followed by the paths of exactly those groups
  whose fingerprint is another one, not yet processed and at most \<open>T\<close> mismatches from
  \<open>F\<close>, in dictionary order, and the processed set with \<open>F\<close> and each merged
  fingerprint added. One iteration of the outer loop for \<open>F\<close> returns that processed
  set and the similar groups, to which the cluster is appended exactly when it holds
  more than one path; an iteration for a fingerprint that is already processed returns
  the state as it was; and the whole pass is these iterations one after the other. The
  keys of a dictionary are distinct, which is the hypothesis on \<open>gs\<close>.
\<close>

theorem clustering_step:
  assumes "distinct (map fst gs)" and "F \<notin> P"
  shows "hamming_distance F G = mismatch_count F G \<and>
         (let merged = filter (within_threshold T F P) gs;
              C = fps @ concat (map snd merged)
          in merge_scan T F gs (fps, insert F P) = (C, insert F (P \<union> fst ` set merged)) \<and>
             cluster_loop T gs [(F, fps)] (sgs, P) =
               (if 1 < length C then sgs @ [C] else sgs, insert F (P \<union> fst ` set merged)) \<and>
             cluster_loop T gs ((F, fps) # todo) (sgs, P) =
               cluster_loop T gs todo
                 (if 1 < length C then sgs @ [C] else sgs, insert F (P \<union> fst ` set merged))) \<and>
         cluster_loop T gs [(F', fps')] (sgs, insert F' P) = (sgs, insert F' P) \<and>
         cluster_loop T gs todo st = foldl (\<lambda>s kv. cluster_loop T gs [kv] s) st todo"
proof -
  have same: "filter (within_threshold T F (insert F P)) gs = filter (within_threshold T F P) gs"
    by (rule filter_cong) (auto simp: within_threshold_def)
  have scan: "merge_scan T F gs (fps, insert F P) =
      (fps @ concat (map snd (filter (within_threshold T F P) gs)),
       insert F (P \<union> fst ` set (filter (within_threshold T F P) gs)))"
    using assms(1) by (simp add: merge_scan_closed same)
  have skip: "cluster_loop T gs [(F', fps')] (sgs, insert F' P) = (sgs, insert F' P)"
    by simp
  show ?thesis
    using assms(2) scan skip cluster_loop_foldl [of T gs todo st]
    by (simp add: hamming_distance_mismatch Let_def)
qed

theorem clustering_step_witness:
  "distinct (map fst (phash_groups scenario_world [''in/a.png'', ''in/c.png''])) \<and>
   phash_groups scenario_world [''in/a.png'', ''in/c.png''] =
     [(''c3c33c3c99996666'', [''in/a.png'']), (''c3c33c3c99996667'', [''in/c.png''])] \<and>
   hamming_distance ''c3c33c3c99996666'' ''c3c33c3c99996667'' = 1 \<and>
   mismatch_count ''c3c33c3c99996666'' ''c3c33c3c99996667'' = 1 \<and>
   merge_scan 2 ''c3c33c3c99996666'' (phash_groups scenario_world [''in/a.png'', ''in/c.png''])
       ([''in/a.png''], {''c3c33c3c99996666''}) =
     ([''in/a.png'', ''in/c.png''], {''c3c33c3c99996666'', ''c3c33c3c99996667''}) \<and>
   cluster_loop 2 (phash_groups scenario_world [''in/a.png'', ''in/c.png''])
       [(''c3c33c3c99996666'', [''in/a.png''])] ([], {}) =
     ([[''in/a.png'', ''in/c.png'']], {''c3c33c3c99996666'', ''c3c33c3c99996667''}) \<and>
   cluster_loop 2 (phash_groups scenario_world [''in/a.png'', ''in/c.png''])
       (phash_groups scenario_world [''in/a.png'', ''in/c.png'']) ([], {}) =
     ([[''in/a.png'', ''in/c.png'']], {''c3c33c3c99996666'', ''c3c33c3c99996667''}) \<and>
   merge_scan 0 ''c3c33c3c99996666'' (phash_groups scenario_world [''in/a.png'', ''in/c.png''])
       ([''in/a.png''], {''c3c33c3c99996666''}) =
     ([''in/a.png''], {''c3c33c3c99996666''}) \<and>
   cluster_loop 0 (phash_groups scenario_world [''in/a.png'', ''in/c.png''])
       [(''c3c33c3c99996666'', [''in/a.png''])] ([], {}) =
     ([], {''c3c33c3c99996666''})"
proof -
  let ?F = "''c3c33c3c99996666''" and ?G = "''c3c33c3c99996667''"
  let ?gs = "phash_groups scenario_world [''in/a.png'', ''in/c.png'']"
  have gs: "?gs = [(?F, [''in/a.png'']), (?G, [''in/c.png''])]"
    by (simp add: world_simps)
  have d: "distinct (map fst ?gs)" and F: "?F \<notin> ({} :: string set)"
    by (simp_all add: gs)
  have mc: "mismatch_count ?F ?G = 1"
    by (simp add: mismatch_count_def upt_rec_numeral)
  have near: "filter (within_threshold 2 ?F {}) ?gs = [(?G, [''in/c.png''])]"
    by (simp add: gs within_threshold_def mc)
  have far: "filter (within_threshold 0 ?F {}) ?gs = []"
    by (simp add: gs within_threshold_def mc)
  have two: "{?G, ?F} = {?F, ?G}"
    by (rule insert_commute)
  note s2 = clustering_step [OF d F, where T = 2 and G = ?G and fps = "[''in/a.png'']" and sgs = "[]"
      and todo = ?gs and st = "([], {})" and F' = ?F and fps' = "[''in/a.png'']"]
  note s0 = clustering_step [OF d F, where T = 0 and G = ?G and fps = "[''in/a.png'']" and sgs = "[]"
      and todo = ?gs and st = "([], {})" and F' = ?F and fps' = "[''in/a.png'']"]
  have h: "hamming_distance ?F ?G = 1"
    using s2 mc by simp
  have m2: "merge_scan 2 ?F ?gs ([''in/a.png''], {?F}) = ([''in/a.png'', ''in/c.png''], {?F, ?G})"
    using s2 by (simp add: near Let_def two)
  have c2: "cluster_loop 2 ?gs [(?F, [''in/a.png''])] ([], {}) = ([[''in/a.png'', ''in/c.png'']], {?F, ?G})"
    using s2 by (simp add: near Let_def two)
  have skip: "cluster_loop 2 ?gs [(?G, [''in/c.png''])] ([[''in/a.png'', ''in/c.png'']], {?F, ?G})
                = ([[''in/a.png'', ''in/c.png'']], {?F, ?G})"
    using clustering_step [OF d, where F = ?G and P = "{?F}" and T = 2 and G = ?G
      and fps = "[''in/c.png'']" and sgs = "[[''in/a.png'', ''in/c.png'']]" and todo = ?gs
      and st = "([], {})" and F' = ?G and fps' = "[''in/c.png'']"]
    by (simp add: two)
  have "cluster_loop 2 ?gs ?gs ([], {}) = foldl (\<lambda>s kv. cluster_loop 2 ?gs [kv] s) ([], {}) ?gs"
    using s2 by blast
  also have "\<dots> = cluster_loop 2 ?gs [(?G, [''in/c.png''])] (cluster_loop 2 ?gs [(?F, [''in/a.png''])] ([], {}))"
    by (simp add: gs)
  also have "\<dots> = ([[''in/a.png'', ''in/c.png'']], {?F, ?G})"
    by (simp only: c2 skip)
  finally have p2: "cluster_loop 2 ?gs ?gs ([], {}) = ([[''in/a.png'', ''in/c.png'']], {?F, ?G})" .
  have m0: "merge_scan 0 ?F ?gs ([''in/a.png''], {?F}) = ([''in/a.png''], {?F})"
    using s0 by (simp add: far Let_def)
  have c0: "cluster_loop 0 ?gs [(?F, [''in/a.png''])] ([], {}) = ([], {?F})"
    using s0 by (simp add: far Let_def)
  show ?thesis
    using d gs h mc m2 c2 p2 m0 c0 by simp
qed

section \<open>A cluster stays within the threshold of its seed\<close>

text \<open>
  Claim C5. Take any run and any similar group \<open>C\<close> it reports. \<open>C\<close> was built for a
  seed fingerprint \<open>F\<close>, which is the fingerprint of the first path of \<open>C\<close> (the cluster
  starts with the seed's own paths), with a set \<open>M\<close> of fingerprints merged by the scan
  of that seed. Every merged fingerprint differs from \<open>F\<close> and is at most \<open>T\<close> mismatches
  from it, and every path of \<open>C\<close> has the fingerprint \<open>F\<close> or a merged one: no path of the
  cluster has a fingerprint farther than \<open>T\<close> from the seed.
\<close>

theorem cluster_within_threshold:
  assumes run: "organize_icons w all_images output_dir T fs = Inr r"
      and C: "C \<in> set (similar_groups r)"
  shows "\<exists>F M. (F, M, C) \<in> set (cluster_trace T
                   (phash_groups w (first_discovered (calculate_file_md5 w) all_images))
                   (phash_groups w (first_discovered (calculate_file_md5 w) all_images)) {}) \<and>
           calculate_image_hash w (hd C) = Some F \<and>
           (\<forall>G\<in>M. G \<noteq> F \<and> int (mismatch_count F G) \<le> T) \<and>
           (\<forall>p\<in>set C. \<exists>G. calculate_image_hash w p = Some G \<and> (G = F \<or> G \<in> M))"
proof -
  let ?us = "first_discovered (calculate_file_md5 w) all_images"
  let ?pg = "phash_groups w ?us"
  have "similar_groups r = fst (cluster_pass T ?pg)"
    using organize_icons_run [of w output_dir T all_images fs] run by auto
  then have "C \<in> set (filter (\<lambda>C. 1 < length C) (map (\<lambda>e. snd (snd e)) (cluster_trace T ?pg ?pg {})))"
    using C cluster_loop_trace [of T ?pg ?pg "[]" "{}"] by (simp add: cluster_pass_def)
  then obtain F M where e: "(F, M, C) \<in> set (cluster_trace T ?pg ?pg {})"
    by auto
  then obtain fps P0 where
    fps: "(F, fps) \<in> set ?pg" and F: "F \<notin> P0" and
    Cm: "C = fst (merge_scan T F ?pg (fps, insert F P0))" and
    Mm: "M = snd (merge_scan T F ?pg (fps, insert F P0)) - insert F P0"
    using trace_entry [of F M C T ?pg ?pg "{}"] by blast
  have entry: "calculate_image_hash w p = Some G" if "(G, ps) \<in> set ?pg" "p \<in> set ps" for G ps p
    using that group_loop_entry [of G ps "calculate_image_hash w" ?us] by (auto simp: phash_groups_def)
  have ne: "fps \<noteq> []"
    using fps group_loop_nonempty [of "calculate_image_hash w" ?us] by (fastforce simp: phash_groups_def)
  obtain rest where "C = fps @ rest"
    using merge_scan_prefix [of T F ?pg fps "insert F P0"] Cm by auto
  then have "hd C \<in> set fps"
    using ne by simp
  then have seed: "calculate_image_hash w (hd C) = Some F"
    using entry [OF fps] by simp
  have near: "\<forall>G\<in>M. G \<noteq> F \<and> int (mismatch_count F G) \<le> T"
    using merge_scan_new_keys [of _ T F ?pg fps "insert F P0"] by (auto simp: Mm)
  have paths: "\<forall>p\<in>set C. \<exists>G. calculate_image_hash w p = Some G \<and> (G = F \<or> G \<in> M)"
  proof
    fix p assume "p \<in> set C"
    then consider "p \<in> set fps"
      | G ps where "(G, ps) \<in> set ?pg" "p \<in> set ps" "G \<notin> insert F P0"
          "G \<in> snd (merge_scan T F ?pg (fps, insert F P0))"
      using merge_scan_path_origin [of p T F ?pg fps "insert F P0"] Cm by auto
    then show "\<exists>G. calculate_image_hash w p = Some G \<and> (G = F \<or> G \<in> M)"
    proof cases
      case 1
      then show ?thesis using entry [OF fps] by simp
    next
      case 2
      then show ?thesis using entry [of G ps p] by (auto simp: Mm)
    qed
  qed
  show ?thesis
    using e seed near paths by blast
qed

theorem cluster_within_threshold_witness:
  "\<exists>r. organize_icons scenario_world scenario_images ''out'' 2 Map.empty = Inr r \<and>
       [''in/a.png'', ''in/c.png''] \<in> set (similar_groups r) \<and>
       (\<exists>F M. (F, M, [''in/a.png'', ''in/c.png'']) \<in> set (cluster_trace 2
                   (phash_groups scenario_world (first_discovered (calculate_file_md5 scenario_world) scenario_images))
                   (phash_groups scenario_world (first_discovered (calculate_file_md5 scenario_world) scenario_images)) {}) \<and>
           calculate_image_hash scenario_world (hd [''in/a.png'', ''in/c.png'']) = Some F \<and>
           (\<forall>G\<in>M. G \<noteq> F \<and> int (mismatch_count F G) \<le> 2) \<and>
           (\<forall>p\<in>set [''in/a.png'', ''in/c.png''].
               \<exists>G. calculate_image_hash scenario_world p = Some G \<and> (G = F \<or> G \<in> M)))"
proof -
  obtain r where r: "organize_icons scenario_world scenario_images ''out'' 2 Map.empty = Inr r"
    and sg: "similar_groups r = [[''in/a.png'', ''in/c.png'']]"
    using scenario_run by blast
  have "[''in/a.png'', ''in/c.png''] \<in> set (similar_groups r)"
    by (simp add: sg)
  from cluster_within_threshold [OF r this] r this show ?thesis
    by blast
qed

section \<open>The three-file scenario\<close>

text \<open>
  Claim C8. Three distinct paths are discovered, in any order: \<open>a\<close> and \<open>b\<close> have the same
  bytes, \<open>c\<close> has bytes with another digest, both contents decode, and the two
  fingerprints are at most 2 mismatches apart. Then the run with threshold 2 completes
  and reports three images, one exact duplicate, no unique icon, and exactly one similar
  group: it has two paths, the representative of \<open>a\<close>'s content (whichever of \<open>a\<close> and \<open>b\<close>
  was discovered first) and \<open>c\<close>.
\<close>

theorem three_file_scenario:
  assumes files: "read_file w a = Some ca" "read_file w b = Some ca" "read_file w c = Some cc"
      and digests: "md5_hexdigest w ca \<noteq> md5_hexdigest w cc"
                   "md5_hexdigest w ca \<noteq> []" "md5_hexdigest w cc \<noteq> []"
      and prints: "phash_str w ca = Some fa" "phash_str w cc = Some fc" "fa \<noteq> []" "fc \<noteq> []"
      and near: "int (mismatch_count fa fc) \<le> 2"
      and paths: "a \<noteq> b" "a \<noteq> c" "b \<noteq> c"
      and found: "distinct all_images" "set all_images = {a, b, c}"
  shows "\<exists>r g. organize_icons w all_images output_dir 2 fs = Inr r \<and>
             total_images r = 3 \<and> duplicate_count r = 1 \<and> unique_count r = 0 \<and>
             similar_groups r = [g] \<and> length g = 2 \<and>
             set g = {hd (filter (\<lambda>p. p = a \<or> p = b) all_images), c}"
proof -
  have "card (set all_images) = 3"
    using paths found by simp
  then have "length all_images = 3"
    using found distinct_card by fastforce
  then obtain p q s where l: "all_images = [p, q, s]"
    by (auto simp: length_Suc_conv numeral_3_eq_3)
  have "p \<in> {a, b, c}" "q \<in> {a, b, c}" "s \<in> {a, b, c}" "p \<noteq> q" "p \<noteq> s" "q \<noteq> s"
    using found by (auto simp: l)
  then consider
      "all_images = [a, b, c]" | "all_images = [a, c, b]" | "all_images = [c, a, b]"
    | "all_images = [b, a, c]" | "all_images = [b, c, a]" | "all_images = [c, b, a]"
    using l by auto
  then show ?thesis
  proof cases
    case 1
    then show ?thesis
      using three_file_run [OF files(1) files(2) files(3) digests prints near, of all_images "[a, c]" output_dir fs] paths
      by auto
  next
    case 2
    then show ?thesis
      using three_file_run [OF files(1) files(2) files(3) digests prints near, of all_images "[a, c]" output_dir fs] paths
      by auto
  next
    case 3
    then show ?thesis
      using three_file_run [OF files(1) files(2) files(3) digests prints near, of all_images "[c, a]" output_dir fs] paths
      by auto
  next
    case 4
    then show ?thesis
      using three_file_run [OF files(2) files(1) files(3) digests prints near, of all_images "[b, c]" output_dir fs] paths
      by auto
  next
    case 5
    then show ?thesis
      using three_file_run [OF files(2) files(1) files(3) digests prints near, of all_images "[b, c]" output_dir fs] paths
      by auto
  next
    case 6
    then show ?thesis
      using three_file_run [OF files(2) files(1) files(3) digests prints near, of all_images "[c, b]" output_dir fs] paths
      by auto
  qed
qed


theorem three_file_scenario_witness:
  "read_file scenario_world ''in/a.png'' = Some ''A'' \<and>
   read_file scenario_world ''in/b.png'' = Some ''A'' \<and>
   read_file scenario_world ''in/c.png'' = Some ''C'' \<and>
   phash_str scenario_world ''A'' = Some ''c3c33c3c99996666'' \<and>
   phash_str scenario_world ''C'' = Some ''c3c33c3c99996667'' \<and>
   mismatch_count ''c3c33c3c99996666'' ''c3c33c3c99996667'' = 1 \<and>
   (\<exists>r g. organize_icons scenario_world [''in/b.png'', ''in/c.png'', ''in/a.png''] ''out'' 2 Map.empty = Inr r \<and>
      total_images r = 3 \<and> duplicate_count r = 1 \<and> unique_count r = 0 \<and>
      similar_groups r = [g] \<and> length g = 2 \<and> set g = {''in/b.png'', ''in/c.png''})"
  using three_file_scenario
    [where w = scenario_world and a = "''in/a.png''" and b = "''in/b.png''" and c = "''in/c.png''"
       and ca = "''A''" and cc = "''C''" and fa = "''c3c33c3c99996666''" and fc = "''c3c33c3c99996667''"
       and all_images = "[''in/b.png'', ''in/c.png'', ''in/a.png'']" and output_dir = "''out''"
       and fs = Map.empty]
  by (simp add: world_simps mismatch_count_def upt_rec_numeral insert_commute)

section \<open>Raising the threshold\<close>

text \<open>
  Claim C6 says that a cluster which exists at a threshold for a seed has, at any higher
  threshold, a cluster of at least the same size for the same seed. The run below refutes
  it: at threshold 1 the seed \<^verbatim>\<open>0000000000000111\<close> builds a cluster of three paths,
  at threshold 2 the earlier seed \<^verbatim>\<open>0000000000000000\<close> has already taken
  \<^verbatim>\<open>g.png\<close>, and the same seed builds a cluster of two.
\<close>

theorem threshold_monotonicity_counterexample:
  "(1::int) \<le> 2 \<and>
   map_sum id similar_groups (organize_icons threshold_world threshold_images ''out'' 1 Map.empty)
     = Inr [[''t/f1.png'', ''t/f2.png'', ''t/g.png'']] \<and>
   map_sum id similar_groups (organize_icons threshold_world threshold_images ''out'' 2 Map.empty)
     = Inr [[''t/a.png'', ''t/g.png''], [''t/f1.png'', ''t/f2.png'']] \<and>
   seed_cluster 1 (phash_groups threshold_world threshold_images) ''0000000000000111''
     = Some [''t/f1.png'', ''t/f2.png'', ''t/g.png''] \<and>
   seed_cluster 2 (phash_groups threshold_world threshold_images) ''0000000000000111''
     = Some [''t/f1.png'', ''t/f2.png'']"
  by (simp add: world_simps threshold_simps)

text \<open>
  Claim C6, amended. For one seed and one processed set at the start of its merge scan,
  raising the threshold never makes the cluster smaller and never unmarks a fingerprint.
  The first fingerprint of the dictionary always seeds with the empty processed set, so
  its cluster never shrinks when the threshold is raised.
\<close>

theorem merge_scan_monotone:
  assumes "T1 \<le> T2"
  shows "length (fst (merge_scan T1 F gs (fps, P))) \<le> length (fst (merge_scan T2 F gs (fps, P))) \<and>
         snd (merge_scan T1 F gs (fps, P)) \<subseteq> snd (merge_scan T2 F gs (fps, P)) \<and>
         (\<exists>C1 C2. seed_cluster T1 ((F, fps) # rest) F = Some C1 \<and>
                  seed_cluster T2 ((F, fps) # rest) F = Some C2 \<and> length C1 \<le> length C2)"
  using assms merge_scan_mono_gen [of T1 T2 P P F fps fps gs]
        merge_scan_mono_gen [of T1 T2 "{F}" "{F}" F fps fps "(F, fps) # rest"]
  by (simp add: seed_cluster_first)

theorem merge_scan_monotone_witness:
  "(1::int) \<le> 2 \<and>
   length (fst (merge_scan 1 ''0000000000000000'' (phash_groups threshold_world threshold_images)
                  ([''t/a.png''], {''0000000000000000''}))) = 1 \<and>
   length (fst (merge_scan 2 ''0000000000000000'' (phash_groups threshold_world threshold_images)
                  ([''t/a.png''], {''0000000000000000''}))) = 2 \<and>
   snd (merge_scan 1 ''0000000000000000'' (phash_groups threshold_world threshold_images)
          ([''t/a.png''], {''0000000000000000''}))
     \<subseteq> snd (merge_scan 2 ''0000000000000000'' (phash_groups threshold_world threshold_images)
            ([''t/a.png''], {''0000000000000000''})) \<and>
   seed_cluster 1 (phash_groups threshold_world threshold_images) ''0000000000000000''
     = Some [''t/a.png''] \<and>
   seed_cluster 2 (phash_groups threshold_world threshold_images) ''0000000000000000''
     = Some [''t/a.png'', ''t/g.png'']"
  using merge_scan_monotone
    [where ?T1.0 = 1 and ?T2.0 = 2 and F = "''0000000000000000''"
       and gs = "phash_groups threshold_world threshold_images" and fps = "[''t/a.png'']"
       and P = "{''0000000000000000''}"
       and rest = "[(''0000000000000111'', [''t/f1.png'', ''t/f2.png'']), (''0000000000000011'', [''t/g.png''])]"]
  by (simp add: world_simps threshold_simps)

section \<open>Where every discovered path goes\<close>

text \<open>
  Claim C3 says that the unique-icon count, the duplicate count and the number of
  files excluded by a failed digest or fingerprint add up to the number of discovered
  images. In the three-file scenario no file is excluded, the counts are 0 and 1, and
  three images were discovered: the two paths of the similar group are in no term of
  the sum.
\<close>

theorem partition_counterexample:
  "map_sum id (\<lambda>r. (unique_count r, duplicate_count r, total_images r))
     (organize_icons scenario_world scenario_images ''out'' 2 Map.empty) = Inr (0, 1, 3) \<and>
   filter (\<lambda>p. \<not> truthy (calculate_file_md5 scenario_world p)) scenario_images = [] \<and>
   filter (\<lambda>p. \<not> truthy (calculate_image_hash scenario_world p)) scenario_images = [] \<and>
   (0::int) + 1 + 0 \<noteq> 3"
  by (simp add: world_simps run_simps truthy_def)

text \<open>
  Claim C3, amended. Every run completes, and the discovered images are accounted for
  as follows: the paths without a digest, the exact duplicates, the representatives
  without a fingerprint, the paths of the similar groups, and the clusters of a single
  path (which are not retained as similar groups) add up to the number of discovered
  images.
\<close>

theorem partition_completeness:
  "\<exists>r. organize_icons w all_images output_dir T fs = Inr r \<and>
     int (total_images r) =
       int (length (filter (\<lambda>p. \<not> truthy (calculate_file_md5 w p)) all_images)) +
       duplicate_count r +
       int (length (filter (\<lambda>p. \<not> truthy (calculate_image_hash w p))
                      (first_discovered (calculate_file_md5 w) all_images))) +
       int (sum_list (map length (similar_groups r))) +
       int (length (filter (\<lambda>e. length (snd (snd e)) = 1)
                      (cluster_trace T
                         (phash_groups w (first_discovered (calculate_file_md5 w) all_images))
                         (phash_groups w (first_discovered (calculate_file_md5 w) all_images)) {})))"
proof -
  let ?md5 = "calculate_file_md5 w" and ?ph = "calculate_image_hash w"
  let ?us = "first_discovered ?md5 all_images"
  let ?pg = "phash_groups w ?us"
  let ?Cs = "map (\<lambda>e. snd (snd e)) (cluster_trace T ?pg ?pg {})"
  obtain r where r: "organize_icons w all_images output_dir T fs = Inr r"
    and tot: "total_images r = length all_images"
    and dup: "duplicate_count r = int (length (produced_digests ?md5 all_images)) -
                int (card (set (produced_digests ?md5 all_images)))"
    and sg: "similar_groups r = fst (cluster_pass T ?pg)"
    using organize_icons_run [of w output_dir T all_images fs] by auto
  have sg': "similar_groups r = filter (\<lambda>C. 1 < length C) ?Cs"
    using cluster_loop_trace [of T ?pg ?pg "[]" "{}"] by (simp add: sg cluster_pass_def)
  have card_le: "card (set (produced_digests ?md5 all_images)) \<le> length (produced_digests ?md5 all_images)"
    by (rule card_length)
  have 1: "length all_images =
      length (filter (\<lambda>p. \<not> truthy (?md5 p)) all_images) + length (produced_digests ?md5 all_images)"
    by (rule length_no_hash)
  have 2: "length ?us = card (set (produced_digests ?md5 all_images))"
    by (rule length_first_discovered)
  have 3: "length ?us = length (filter (\<lambda>p. \<not> truthy (?ph p)) ?us) + group_sizes ?pg"
    using length_no_hash [of ?us ?ph] by (simp add: phash_groups_def group_loop_sizes)
  have "sum_list (map (\<lambda>e. length (snd (snd e))) (cluster_trace T ?pg ?pg {})) =
          group_sizes (filter (\<lambda>kv. fst kv \<notin> {}) ?pg)"
    using group_loop_distinct [of ?ph ?us]
    by (intro trace_sizes [of ?pg "[]"]) (simp_all add: phash_groups_def)
  then have 4: "group_sizes ?pg = sum_list (map length ?Cs)"
    by (simp add: o_def)
  have "\<forall>C\<in>set ?Cs. C \<noteq> []"
    using trace_clusters_nonempty [of ?pg T ?pg "{}"] group_loop_nonempty [of ?ph ?us]
    by (simp add: phash_groups_def)
  then have 5: "sum_list (map length ?Cs) =
      sum_list (map length (similar_groups r)) + length (filter (\<lambda>C. length C = 1) ?Cs)"
    using sum_lengths_split [of ?Cs] by (simp add: sg')
  have 6: "length (filter (\<lambda>C. length C = 1) ?Cs) =
           length (filter (\<lambda>e. length (snd (snd e)) = 1) (cluster_trace T ?pg ?pg {}))"
    by (simp add: filter_map o_def)
  show ?thesis
    using r tot dup card_le 1 2 3 4 5 6 by (intro exI [of _ r]) linarith
qed

theorem partition_completeness_witness:
  "\<exists>r. organize_icons scenario_world mixed_images ''out'' 0 Map.empty = Inr r \<and>
     total_images r = 5 \<and>
     filter (\<lambda>p. \<not> truthy (calculate_file_md5 scenario_world p)) mixed_images = [''in/gone.png''] \<and>
     duplicate_count r = 1 \<and>
     filter (\<lambda>p. \<not> truthy (calculate_image_hash scenario_world p))
       (first_discovered (calculate_file_md5 scenario_world) mixed_images) = [''in/v.svg''] \<and>
     similar_groups r = [] \<and>
     int (length (filter (\<lambda>e. length (snd (snd e)) = 1)
            (cluster_trace 0
               (phash_groups scenario_world (first_discovered (calculate_file_md5 scenario_world) mixed_images))
               (phash_groups scenario_world (first_discovered (calculate_file_md5 scenario_world) mixed_images)) {}))) = 2"
proof -
  obtain r where r: "organize_icons scenario_world mixed_images ''out'' 0 Map.empty = Inr r"
    and vals: "total_images r = 5" "duplicate_count r = 1" "similar_groups r = []"
    using mixed_run by blast
  have nd: "filter (\<lambda>p. \<not> truthy (calculate_file_md5 scenario_world p)) mixed_images = [''in/gone.png'']"
    by (simp add: world_simps mixed_images_def truthy_def)
  have us: "first_discovered (calculate_file_md5 scenario_world) mixed_images =
              [''in/a.png'', ''in/c.png'', ''in/v.svg'']"
    by (simp add: world_simps mixed_images_def first_discovered_def truthy_def upt_rec_numeral)
  have nf: "filter (\<lambda>p. \<not> truthy (calculate_image_hash scenario_world p))
              [''in/a.png'', ''in/c.png'', ''in/v.svg''] = [''in/v.svg'']"
    by (simp add: world_simps truthy_def)
  obtain r0 where r0: "organize_icons scenario_world mixed_images ''out'' 0 Map.empty = Inr r0"
    and eq: "int (total_images r0) =
       int (length (filter (\<lambda>p. \<not> truthy (calculate_file_md5 scenario_world p)) mixed_images)) +
       duplicate_count r0 +
       int (length (filter (\<lambda>p. \<not> truthy (calculate_image_hash scenario_world p))
                      (first_discovered (calculate_file_md5 scenario_world) mixed_images))) +
       int (sum_list (map length (similar_groups r0))) +
       int (length (filter (\<lambda>e. length (snd (snd e)) = 1)
                      (cluster_trace 0
                         (phash_groups scenario_world (first_discovered (calculate_file_md5 scenario_world) mixed_images))
                         (phash_groups scenario_world (first_discovered (calculate_file_md5 scenario_world) mixed_images)) {})))"
    using partition_completeness [of scenario_world mixed_images "''out''" 0 Map.empty] by blast
  have same: "r0 = r"
    using r r0 by simp
  have tr: "int (length (filter (\<lambda>e. length (snd (snd e)) = 1)
            (cluster_trace 0
               (phash_groups scenario_world (first_discovered (calculate_file_md5 scenario_world) mixed_images))
               (phash_groups scenario_world (first_discovered (calculate_file_md5 scenario_world) mixed_images)) {}))) = 2"
    using eq unfolding same vals nd us nf by simp
  show ?thesis
    using r vals nd tr unfolding us nf by blast
qed

section \<open>Failures of single files\<close>

text \<open>
  Claim C9. A path \<open>p\<close> that cannot be read gets no digest (\<open>None\<close>) and is in no
  digest group; a path \<open>q\<close> that cannot be read or does not decode gets no fingerprint
  (\<open>None\<close>) and is in no fingerprint group and in no cluster. The other paths are
  processed as if the failed ones had not been discovered: both dictionaries are the
  ones built from the list without the failed paths. Every run completes with a report,
  which counts all discovered images and has \<open>q\<close> in no similar group.
\<close>

theorem per_file_failures_are_local:
  "(read_file w p = None \<longrightarrow>
      calculate_file_md5 w p = None \<and> p \<notin> group_paths (md5_groups w all_images)) \<and>
   md5_groups w all_images =
     md5_groups w (filter (\<lambda>x. calculate_file_md5 w x \<noteq> None) all_images) \<and>
   ((case read_file w q of None \<Rightarrow> True | Some img \<Rightarrow> phash_str w img = None) \<longrightarrow>
      calculate_image_hash w q = None \<and>
      q \<notin> group_paths (phash_groups w unique_images) \<and>
      q \<notin> \<Union> (set ` set (fst (cluster_pass T (phash_groups w unique_images))))) \<and>
   phash_groups w unique_images =
     phash_groups w (filter (\<lambda>x. calculate_image_hash w x \<noteq> None) unique_images) \<and>
   (\<exists>r. organize_icons w all_images output_dir T fs = Inr r \<and>
        total_images r = length all_images \<and>
        ((case read_file w q of None \<Rightarrow> True | Some img \<Rightarrow> phash_str w img = None) \<longrightarrow>
           q \<notin> \<Union> (set ` set (similar_groups r))))"
proof -
  have md5_none: "calculate_file_md5 w p = None" if "read_file w p = None"
    using that by (simp add: calculate_file_md5_def)
  have md5_out: "p \<notin> group_paths (md5_groups w all_images)" if "read_file w p = None"
    using group_loop_paths_hash [of p "calculate_file_md5 w" all_images] md5_none [OF that]
    by (auto simp: md5_groups_def truthy_def)
  have ph_none: "calculate_image_hash w q = None"
    if "case read_file w q of None \<Rightarrow> True | Some img \<Rightarrow> phash_str w img = None"
    using that by (simp add: calculate_image_hash_def split: option.splits)
  have ph_out: "q \<notin> group_paths (phash_groups w us)"
    if "case read_file w q of None \<Rightarrow> True | Some img \<Rightarrow> phash_str w img = None" for us
    using group_loop_paths_hash [of q "calculate_image_hash w" us] ph_none [OF that]
    by (auto simp: phash_groups_def truthy_def)
  have cl_out: "q \<notin> \<Union> (set ` set (fst (cluster_pass T (phash_groups w us))))"
    if "case read_file w q of None \<Rightarrow> True | Some img \<Rightarrow> phash_str w img = None" for us
    using cluster_pass_paths [of T "phash_groups w us"] ph_out [OF that, of us] by blast
  have md5_rest: "md5_groups w all_images =
     md5_groups w (filter (\<lambda>x. calculate_file_md5 w x \<noteq> None) all_images)"
    unfolding md5_groups_def by (rule group_loop_drop_failed)
  have ph_rest: "phash_groups w unique_images =
     phash_groups w (filter (\<lambda>x. calculate_image_hash w x \<noteq> None) unique_images)"
    unfolding phash_groups_def by (rule group_loop_drop_failed)
  obtain r where r: "organize_icons w all_images output_dir T fs = Inr r"
    and tot: "total_images r = length all_images"
    and sg: "similar_groups r =
      fst (cluster_pass T (phash_groups w (first_discovered (calculate_file_md5 w) all_images)))"
    using organize_icons_run [of w output_dir T all_images fs] by auto
  have run: "\<exists>r. organize_icons w all_images output_dir T fs = Inr r \<and>
        total_images r = length all_images \<and>
        ((case read_file w q of None \<Rightarrow> True | Some img \<Rightarrow> phash_str w img = None) \<longrightarrow>
           q \<notin> \<Union> (set ` set (similar_groups r)))"
    using r tot sg cl_out [of "first_discovered (calculate_file_md5 w) all_images"] by auto
  show ?thesis
    using md5_none md5_out md5_rest ph_none ph_out [of unique_images] cl_out [of unique_images]
      ph_rest run
    by blast
qed

theorem per_file_failures_are_local_witness:
  "read_file scenario_world ''in/gone.png'' = None \<and>
   calculate_file_md5 scenario_world ''in/gone.png'' = None \<and>
   ''in/gone.png'' \<notin> group_paths (md5_groups scenario_world mixed_images) \<and>
   md5_groups scenario_world mixed_images =
     [(''7fc56270e7a70fa81a5935b72eacbe29'', [''in/a.png'', ''in/b.png'']),
      (''0d61f8370cad1d412f80b84d143e1257'', [''in/c.png'']),
      (''5dbc98dcc983a70728bd082d1a47546e'', [''in/v.svg''])] \<and>
   read_file scenario_world ''in/v.svg'' = Some ''S'' \<and> phash_str scenario_world ''S'' = None \<and>
   calculate_image_hash scenario_world ''in/v.svg'' = None \<and>
   ''in/v.svg'' \<notin> group_paths (phash_groups scenario_world [''in/a.png'', ''in/c.png'', ''in/v.svg'']) \<and>
   phash_groups scenario_world [''in/a.png'', ''in/c.png'', ''in/v.svg''] =
     [(''c3c33c3c99996666'', [''in/a.png'']), (''c3c33c3c99996667'', [''in/c.png''])] \<and>
   (\<exists>r. organize_icons scenario_world mixed_images ''out'' 2 Map.empty = Inr r \<and>
        total_images r = 5 \<and> ''in/v.svg'' \<notin> \<Union> (set ` set (similar_groups r)))"
proof -
  have gone: "read_file scenario_world ''in/gone.png'' = None"
    by (simp add: world_simps)
  have svg: "read_file scenario_world ''in/v.svg'' = Some ''S''" "phash_str scenario_world ''S'' = None"
    by (simp_all add: world_simps)
  then have svg': "case read_file scenario_world ''in/v.svg'' of
                     None \<Rightarrow> True | Some img \<Rightarrow> phash_str scenario_world img = None"
    by simp
  have len: "length mixed_images = 5"
    by (simp add: mixed_images_def scenario_images_def)
  have md5: "md5_groups scenario_world mixed_images =
     [(''7fc56270e7a70fa81a5935b72eacbe29'', [''in/a.png'', ''in/b.png'']),
      (''0d61f8370cad1d412f80b84d143e1257'', [''in/c.png'']),
      (''5dbc98dcc983a70728bd082d1a47546e'', [''in/v.svg''])]"
    by (simp add: world_simps mixed_images_def)
  have ph: "phash_groups scenario_world [''in/a.png'', ''in/c.png'', ''in/v.svg''] =
     [(''c3c33c3c99996666'', [''in/a.png'']), (''c3c33c3c99996667'', [''in/c.png''])]"
    by (simp add: world_simps)
  show ?thesis
    using per_file_failures_are_local
      [where w = scenario_world and p = "''in/gone.png''" and q = "''in/v.svg''"
         and all_images = mixed_images and unique_images = "[''in/a.png'', ''in/c.png'', ''in/v.svg'']"
         and T = 2 and output_dir = "''out''" and fs = Map.empty]
      gone svg svg'
    unfolding len md5 [symmetric] ph [symmetric]
    by blast
qed

section \<open>A lone icon\<close>

text \<open>
  Claim C1 says that a fingerprint group of one path whose fingerprint is merged into no
  other cluster has its path copied into \<^verbatim>\<open>unique_icons\<close> and counted. The code
  does not do so. In the run below one readable image is discovered; its fingerprint
  group has one path and there is no other group; the run reports no unique icon and no
  similar group, and nothing is at \<^verbatim>\<open>out/unique_icons/c.png\<close>. The seed of a
  cluster is itself marked processed (line 95), so the guard of line 122 never holds
  (claim C2).
\<close>

theorem unique_icon_not_emitted:
  "phash_groups scenario_world [''in/c.png''] = [(''c3c33c3c99996667'', [''in/c.png''])] \<and>
   map_sum id (\<lambda>r. (total_images r, unique_count r, similar_groups r,
                     output_tree r ''out/unique_icons/c.png''))
     (organize_icons scenario_world [''in/c.png''] ''out'' 2 Map.empty) = Inr (1, 0, [], None)"
  by (simp add: world_simps run_simps)

section \<open>File names that collide\<close>

text \<open>
  Claim C10 says that a collision of file names in an output directory never loses
  data. The code renames a colliding file with the suffix of its index and copies it
  without looking whether the new name is taken. In the run below the three files form
  one similar group: \<^verbatim>\<open>x/icon_2.png\<close> is copied first to
  \<^verbatim>\<open>group_1/icon_2.png\<close>, \<^verbatim>\<open>y/icon.png\<close> to \<^verbatim>\<open>group_1/icon.png\<close>, and
  \<^verbatim>\<open>z/icon.png\<close>, at index 2, collides and is written to
  \<^verbatim>\<open>group_1/icon_2.png\<close>, over the first copy. The output tree ends with two files,
  and the content of \<^verbatim>\<open>x/icon_2.png\<close> is in neither.
\<close>

theorem collision_overwrites:
  "map_sum id similar_groups (organize_icons collision_world collision_images ''out'' 2 Map.empty)
     = Inr [[''x/icon_2.png'', ''y/icon.png'', ''z/icon.png'']] \<and>
   map_sum id output_tree (organize_icons collision_world collision_images ''out'' 2 Map.empty)
     = Inr [''out/similar_groups/group_1/icon.png'' \<mapsto> ''Y'',
            ''out/similar_groups/group_1/icon_2.png'' \<mapsto> ''Z''] \<and>
   read_file collision_world ''x/icon_2.png'' = Some ''X'' \<and>
   copy_group_loop collision_world ''out/similar_groups/group_1'' 0 [''x/icon_2.png''] Map.empty
     = Inr [''out/similar_groups/group_1/icon_2.png'' \<mapsto> ''X'']"
  by (simp add: world_simps run_simps collision_simps)

end
